theory Spec2Isabelle
  imports Complex_Main
begin

section \<open>A reaction-diffusion model for pattern formation\<close>

text \<open>
  The notebook is Python 2 with numpy and scipy.sparse. Its arrays are lists of reals,
  and every exception the code can raise is a value of the type \<open>error\<close>: a function
  that may raise returns \<open>error + 'a\<close>, with \<open>Inl\<close> for the exception. The
  entries of the operator and the reaction terms are computed on exact reals; the
  arithmetic of the driver, which decides the step size and the number of steps, is
  rounded to doubles operation by operation (\<open>fl64\<close> below).
\<close>

datatype error = NameError string | ZeroDivisionError | ValueError | IndexError

text \<open>Sequencing of two computations that may raise: the first exception wins.\<close>

definition and_then :: "error + 'a \<Rightarrow> ('a \<Rightarrow> error + 'b) \<Rightarrow> error + 'b" where
  "and_then x fn = (case x of Inl e \<Rightarrow> Inl e | Inr y \<Rightarrow> fn y)"

subsection \<open>Sparse matrices of scipy.sparse\<close>

text \<open>
  A sparse matrix is its shape and its entries, zero wherever nothing is stored. The
  storage formats (DIA, LIL, CSR) hold the same entries, so \<open>tolil\<close> and \<open>todia\<close>
  are the identity here.
\<close>

record spmatrix =
  nrows :: nat
  ncols :: nat
  entry :: "nat \<Rightarrow> nat \<Rightarrow> real"

text \<open>
  \<open>scipy.sparse.spdiags(data, diags, m, n)\<close>: row \<open>k\<close> of \<open>data\<close> is the diagonal
  with offset \<open>diags[k]\<close>, and the element in column \<open>j\<close> of that diagonal is
  \<open>data[k][j]\<close>, so the entry at \<open>(i, j)\<close> is \<open>data[k][j]\<close> for the \<open>k\<close> with
  \<open>j - i = diags[k]\<close>. The constructor raises ValueError when the numbers of diagonals
  and of offsets differ, or when an offset occurs twice.
\<close>

definition spdiags :: "real list list \<Rightarrow> int list \<Rightarrow> nat \<Rightarrow> nat \<Rightarrow> error + spmatrix" where
  "spdiags data diags nr nc =
     (if length data = length diags \<and> distinct diags
      then Inr \<lparr>nrows = nr, ncols = nc,
                entry = (\<lambda>i j. if i < nr \<and> j < nc
                   then (\<Sum>(d, k) \<leftarrow> zip data diags.
                           if int j - int i = k \<and> j < length d then d ! j else 0)
                   else 0)\<rparr>
      else Inl ValueError)"

text \<open>\<open>A[r, c] = x\<close> on a LIL matrix: the entry is replaced; IndexError out of range.\<close>

definition setitem :: "spmatrix \<Rightarrow> nat \<Rightarrow> nat \<Rightarrow> real \<Rightarrow> error + spmatrix" where
  "setitem A r c x =
     (if r < nrows A \<and> c < ncols A
      then Inr (A\<lparr>entry := (\<lambda>i j. if i = r \<and> j = c then x else entry A i j)\<rparr>)
      else Inl IndexError)"

text \<open>\<open>A + B\<close>: entrywise sum; ValueError when the shapes differ.\<close>

definition add_sp :: "spmatrix \<Rightarrow> spmatrix \<Rightarrow> error + spmatrix" where
  "add_sp A B =
     (if nrows A = nrows B \<and> ncols A = ncols B
      then Inr \<lparr>nrows = nrows A, ncols = ncols A,
                entry = (\<lambda>i j. entry A i j + entry B i j)\<rparr>
      else Inl ValueError)"

text \<open>
  \<open>A /= x\<close> for a Python float \<open>x\<close>: scipy multiplies the stored data by \<open>1.0 / x\<close>,
  which raises ZeroDivisionError for \<open>x = 0.0\<close>.
\<close>

definition idiv_sp :: "spmatrix \<Rightarrow> real \<Rightarrow> error + spmatrix" where
  "idiv_sp A x =
     (if x = 0 then Inl ZeroDivisionError
      else Inr (A\<lparr>entry := (\<lambda>i j. entry A i j / x)\<rparr>))"

text \<open>The matrix-vector product \<open>A.dot(U)\<close>; ValueError on a dimension mismatch.\<close>

definition dot :: "spmatrix \<Rightarrow> real list \<Rightarrow> error + real list" where
  "dot A U =
     (if length U \<noteq> ncols A then Inl ValueError
      else Inr (map (\<lambda>i. \<Sum>j \<leftarrow> [0..<ncols A]. entry A i j * U ! j) [0..<nrows A]))"

text \<open>The transpose \<open>A.T\<close>.\<close>

definition transpose_sp :: "spmatrix \<Rightarrow> spmatrix" where
  "transpose_sp A = \<lparr>nrows = ncols A, ncols = nrows A, entry = (\<lambda>i j. entry A j i)\<rparr>"

subsection \<open>The periodic five-point Laplacian\<close>

text \<open>
  The loop of the builder under the comment "Left and right BCs":
  \<^verbatim>\<open>
    for i in range(m):
        A_periodic[i*m,(i+1)*m-1] = 1.
        A_periodic[(i+1)*m-1,i*m] = 1.
  \<close>
\<close>

fun left_right_BCs :: "nat \<Rightarrow> nat list \<Rightarrow> spmatrix \<Rightarrow> error + spmatrix" where
  "left_right_BCs m [] A_periodic = Inr A_periodic"
| "left_right_BCs m (i # rest) A_periodic =
     and_then (setitem A_periodic (i * m) ((i + 1) * m - 1) 1) (\<lambda>A_periodic.
     and_then (setitem A_periodic ((i + 1) * m - 1) (i * m) 1) (\<lambda>A_periodic.
     left_right_BCs m rest A_periodic))"

text \<open>
  \<^verbatim>\<open>
  def five_pt_laplacian_sparse_periodic(m,a,b):
      e=np.ones(m**2)
      e2=([1]*(m-1)+[0])*m
      e3=([0]+[1]*(m-1))*m
      h=(b-a)/(m+1)
      A=scipy.sparse.spdiags([-4*e,e2,e3,e,e],[0,-1,1,-m,m],m**2,m**2)
      A_periodic = scipy.sparse.spdiags([e,e],[m-m**2,m**2-m],m**2,m**2).tolil()
      for i in range(m): ...
      A = A + A_periodic
      A/=h**2
      A = A.todia()
      return A
  \<close>
  The grid dimension \<open>m\<close> is a natural number; \<open>a\<close> and \<open>b\<close> are floats, so the
  division that computes \<open>h\<close> is a true division, and its divisor \<open>m + 1\<close> is not zero.
\<close>

definition five_pt_laplacian_sparse_periodic :: "nat \<Rightarrow> real \<Rightarrow> real \<Rightarrow> error + spmatrix" where
  "five_pt_laplacian_sparse_periodic m a b =
     (let e = replicate (m ^ 2) (1 :: real);
          e2 = concat (replicate m (replicate (m - 1) 1 @ [0]));
          e3 = concat (replicate m ([0] @ replicate (m - 1) 1));
          h = (b - a) / (real m + 1)
      in and_then (spdiags [map (\<lambda>x. - 4 * x) e, e2, e3, e, e]
                     [0, - 1, 1, - int m, int m] (m ^ 2) (m ^ 2)) (\<lambda>A.
         and_then (spdiags [e, e] [int m - int m ^ 2, int m ^ 2 - int m] (m ^ 2) (m ^ 2))
           (\<lambda>A_periodic.
         and_then (left_right_BCs m [0..<m] A_periodic) (\<lambda>A_periodic.
         and_then (add_sp A A_periodic) (\<lambda>A.
         idiv_sp A (h ^ 2))))))"

subsection \<open>The reaction terms\<close>

text \<open>
  The reaction constants are global variables of the notebook, read when \<open>f\<close> and
  \<open>g\<close> are called; here they are the fields of a record passed to both.
  \<^verbatim>\<open>
  def f(u,v):
      return alpha*u*(1-tau1*v**2) + v*(1-tau2*u);

  def g(u,v):
      return beta*v*(1+alpha*tau1/beta*u*v) + u*(gamma+tau2*v);
  \<close>
  In \<open>g\<close> the quotient \<open>alpha*tau1/beta\<close> is evaluated on Python floats before
  \<open>u\<close> and \<open>v\<close> are touched, so \<open>beta = 0\<close> raises ZeroDivisionError.
\<close>

record constants =
  alpha :: real
  beta :: real
  gamma :: real
  tau1 :: real
  tau2 :: real

definition f :: "constants \<Rightarrow> real \<Rightarrow> real \<Rightarrow> real" where
  "f p u v = alpha p * u * (1 - tau1 p * v ^ 2) + v * (1 - tau2 p * u)"

definition g :: "constants \<Rightarrow> real \<Rightarrow> real \<Rightarrow> error + real" where
  "g p u v =
     (if beta p = 0 then Inl ZeroDivisionError
      else Inr (beta p * v * (1 + alpha p * tau1 p / beta p * u * v)
                + u * (gamma p + tau2 p * v)))"

text \<open>
  The additive form of the second reaction term, as the specification and the
  notebook's own text state it:
  \<open>g(u,v) = beta v + alpha tau1 u v^2 + u (gamma + tau2 v)\<close>.
\<close>

definition g_additive :: "constants \<Rightarrow> real \<Rightarrow> real \<Rightarrow> real" where
  "g_additive p u v = beta p * v + alpha p * tau1 p * u * v ^ 2 + u * (gamma p + tau2 p * v)"

subsection \<open>Double precision\<close>

text \<open>
  A Python float is an IEEE 754 double, and every operation on floats returns the double
  nearest to the exact result, ties to the even significand. \<open>round_even\<close> is the
  nearest integer with ties to the even one, and \<open>fl64 x\<close> the nearest number with 53
  significant bits: the exponent is \<open>floor (log2 |x|)\<close>, and \<open>ulp\<close> the weight of
  the last of the 53 bits. The range of the exponent is not bounded: no overflow to
  \<open>inf\<close> and no subnormal numbers.
\<close>

definition round_even :: "real \<Rightarrow> int" where
  "round_even y =
     (let n = \<lfloor>y\<rfloor>; d = y - real_of_int n
      in if d < 1 / 2 then n else if 1 / 2 < d then n + 1 else if even n then n else n + 1)"

definition fl64 :: "real \<Rightarrow> real" where
  "fl64 x =
     (if x = 0 then 0
      else (let ulp = 2 powr (real_of_int \<lfloor>log 2 \<bar>x\<bar>\<rfloor> - 52)
            in real_of_int (round_even (x / ulp)) * ulp))"

subsection \<open>Arrays, the time stepper and the step size\<close>

text \<open>
  numpy arrays are mutable and shared: \<open>reshape\<close> of a contiguous array returns a view
  on the same buffer. The store holds the buffers allocated so far, and an array
  reference is the position of its buffer.
\<close>

type_synonym addr = nat
type_synonym store = "real list list"

definition deref :: "store \<Rightarrow> addr \<Rightarrow> real list" where
  "deref H r = (if r < length H then H ! r else [])"

text \<open>
  A time stepper takes the store, the references \<open>u\<close> and \<open>v\<close>, then
  \<open>k, A, delta, D1, D2\<close>, and returns the two references it hands back with the
  store it leaves.
\<close>

type_synonym stepper =
  "store \<Rightarrow> addr \<Rightarrow> addr \<Rightarrow> real \<Rightarrow> spmatrix \<Rightarrow> real \<Rightarrow> real \<Rightarrow> real
     \<Rightarrow> error + ((addr \<times> addr) \<times> store)"

text \<open>
  The two cells that define \<open>one_step\<close> differ by a comment only, and their body
  binds nothing:
  \<^verbatim>\<open>
  def one_step(u,v,k,A,delta,D1=0.5,D2=1.0):

      return u_new, v_new

  def one_step(u,v,k,A,delta,D1=0.5,D2=1.0):
      # Your code here
      return u_new, v_new
  \<close>
  \<open>u_new\<close> is neither a parameter nor a global of the notebook, so evaluating the
  returned tuple raises NameError at its first component.
\<close>

definition one_step :: stepper where
  "one_step H u v k A delta D1 D2 = Inl (NameError ''u_new'')"

text \<open>
  The two cells that define \<open>step_size\<close>; the later one replaces the earlier.
  \<^verbatim>\<open>
  def step_size(h,delta):
      return h**2/(5.*delta)

  def step_size(h,delta):
      return h/(10.*delta)
  \<close>
  Each operation is rounded to a double; \<open>h**2\<close> is the rounded square of \<open>h\<close>.
\<close>

definition step_size_explicit :: "real \<Rightarrow> real \<Rightarrow> error + real" where
  "step_size_explicit h delta =
     (if fl64 (5 * delta) = 0 then Inl ZeroDivisionError
      else Inr (fl64 (fl64 (h ^ 2) / fl64 (5 * delta))))"

definition step_size_imex :: "real \<Rightarrow> real \<Rightarrow> error + real" where
  "step_size_imex h delta =
     (if fl64 (10 * delta) = 0 then Inl ZeroDivisionError
      else Inr (fl64 (h / fl64 (10 * delta))))"

text \<open>
  Python 2's \<open>round\<close> on a float, followed by \<open>int\<close>: the nearest integer, halves
  away from zero.
\<close>

definition py_round :: "real \<Rightarrow> int" where
  "py_round x = (if 0 \<le> x then \<lfloor>x + 1 / 2\<rfloor> else \<lceil>x - 1 / 2\<rceil>)"

subsection \<open>The driver\<close>

text \<open>
  \<open>pattern_formation\<close> reads the globals \<open>delta\<close>, \<open>step_size\<close> and
  \<open>one_step\<close> when it runs, so it sees whichever cells were executed last.
\<close>

record notebook =
  g_delta :: real
  g_step_size :: "real \<Rightarrow> real \<Rightarrow> error + real"
  g_one_step :: stepper

text \<open>
  What the plotting sink is handed in the loop: the time \<open>t\<close> for the title and the
  array \<open>U\<close>. \<open>snap_seen\<close> records the values \<open>U\<close> holds at that moment.
\<close>

record snapshot =
  snap_t :: real
  snap_U :: addr
  snap_seen :: "real list"

text \<open>The local variables of the driver and the store, and what the sink has received.\<close>

record sim_state =
  heap :: store
  u_ref :: addr
  v_ref :: addr
  t_now :: real
  k_step :: real
  N_steps :: int
  next_plot :: int
  j_done :: nat
  sink :: "snapshot list"

text \<open>
  A run either finishes, or an exception ends it; then the steps completed and the
  snapshots handed out before it remain.
\<close>

datatype outcome = Finished sim_state | Raised error nat "snapshot list"

text \<open>
  The loop, by the number of iterations left:
  \<^verbatim>\<open>
    for j in range(N):
        u,v = one_step(u,v,k,A,delta)
        t = t+k;
        if t>next_plot:
            next_plot = next_plot + 5
            U=u.reshape((m,m))
            plt.clf(); plt.pcolormesh(x,y,U); ...; plt.title(str(t)); ...
  \<close>
  \<open>one_step\<close> is called with its defaults \<open>D1=0.5, D2=1.0\<close>. \<open>reshape\<close> raises
  ValueError when the array does not have \<open>m*m\<close> elements, and returns a view
  otherwise: the sink gets the reference \<open>u\<close> itself.
\<close>

fun time_loop :: "notebook \<Rightarrow> nat \<Rightarrow> spmatrix \<Rightarrow> nat \<Rightarrow> sim_state \<Rightarrow> outcome" where
  "time_loop nb m A 0 s = Finished s"
| "time_loop nb m A (Suc n) s =
     (case g_one_step nb (heap s) (u_ref s) (v_ref s) (k_step s) A (g_delta nb) 0.5 1.0 of
        Inl e \<Rightarrow> Raised e (j_done s) (sink s)
      | Inr ((u, v), H) \<Rightarrow>
          (let t = fl64 (t_now s + k_step s);
               s1 = s\<lparr>heap := H, u_ref := u, v_ref := v, t_now := t\<rparr>
           in if t > real_of_int (next_plot s)
              then (if length (deref H u) \<noteq> m * m
                    then Raised ValueError (j_done s) (sink s)
                    else time_loop nb m A n
                           (s1\<lparr>next_plot := next_plot s + 5,
                               j_done := Suc (j_done s),
                               sink := sink s @ [\<lparr>snap_t = t, snap_U = u, snap_seen = deref H u\<rparr>]\<rparr>))
              else time_loop nb m A n (s1\<lparr>j_done := Suc (j_done s)\<rparr>)))"

text \<open>
  \<^verbatim>\<open>
  def pattern_formation(m=10,T=1000):
      D1 = 0.5
      D2 = 1.0
      a=-1.; b=1.
      h=(b-a)/m;                 # Grid spacing
      ...
      u=np.random.randn(m,m)/2.;
      v=np.random.randn(m,m)/2.;
      ...
      u=u.reshape(-1)
      v=v.reshape(-1)
      A=five_pt_laplacian_sparse_periodic(m,-1.,1.)
      t=0.                      # Initial time
      k = step_size(h,delta)    # Time step size
      N = int(round(T/k))      # Number of steps to take
      next_plot = 0
      for j in range(N): ...
  \<close>
  The random initial data \<open>u0\<close> and \<open>v0\<close> are parameters. The plots are left to the
  sink. \<open>b - a\<close> is exactly \<open>2.0\<close>; the quotients \<open>(b-a)/m\<close> and \<open>T/k\<close> and
  the sum \<open>t+k\<close> are rounded to doubles. \<open>range(N)\<close> is empty for \<open>N \<le> 0\<close>.
\<close>

definition pattern_formation :: "notebook \<Rightarrow> real list \<Rightarrow> real list \<Rightarrow> nat \<Rightarrow> real \<Rightarrow> outcome" where
  "pattern_formation nb u0 v0 m T =
     (let a = - 1; b = 1 :: real
      in if m = 0 then Raised ZeroDivisionError 0 []
         else
           (let h = fl64 ((b - a) / real m)
            in case five_pt_laplacian_sparse_periodic m (- 1) 1 of
                 Inl e \<Rightarrow> Raised e 0 []
               | Inr A \<Rightarrow>
                   (case g_step_size nb h (g_delta nb) of
                      Inl e \<Rightarrow> Raised e 0 []
                    | Inr k \<Rightarrow>
                        if k = 0 then Raised ZeroDivisionError 0 []
                        else
                          (let N = py_round (fl64 (T / k))
                           in time_loop nb m A (nat N)
                                \<lparr>heap = [u0, v0], u_ref = 0, v_ref = 1, t_now = 0,
                                 k_step = k, N_steps = N, next_plot = 0, j_done = 0,
                                 sink = []\<rparr>))))"

subsection \<open>Observing a run\<close>

text \<open>
  The definitions from here on are not in the notebook; they serve to state the
  properties below. \<open>steps_completed\<close> and \<open>handed_out\<close> read a run's outcome.
\<close>

definition steps_completed :: "outcome \<Rightarrow> nat" where
  "steps_completed r = (case r of Finished s \<Rightarrow> j_done s | Raised e n snaps \<Rightarrow> n)"

definition handed_out :: "outcome \<Rightarrow> snapshot list" where
  "handed_out r = (case r of Finished s \<Rightarrow> sink s | Raised e n snaps \<Rightarrow> snaps)"

section \<open>Closed form of the operator\<close>

text \<open>
  The definitions of this section are not in the notebook: they name what the builder
  computes, entry by entry, so that the properties below can be stated and proved.
  \<open>wrap_pair\<close> holds at the positions the loop of the builder sets;
  \<open>band_entry\<close> and \<open>periodic_entry\<close> are the entries of \<open>A\<close> and of
  \<open>A_periodic\<close> before they are added; \<open>neighbours\<close> lists the flattened
  indices of the four neighbours of a cell, wrapped modulo \<open>m\<close>: up, down, left, right.
\<close>

definition wrap_pair :: "nat \<Rightarrow> nat set \<Rightarrow> nat \<Rightarrow> nat \<Rightarrow> bool" where
  "wrap_pair m I r c = (\<exists>i\<in>I. (r = i * m \<and> c = (i + 1) * m - 1) \<or> (r = (i + 1) * m - 1 \<and> c = i * m))"

definition band_entry :: "nat \<Rightarrow> nat \<Rightarrow> nat \<Rightarrow> real" where
  "band_entry m r c =
     (if c = r then - 4 else 0)
     + (if c + 1 = r \<and> c mod m \<noteq> m - 1 then 1 else 0)
     + (if c = r + 1 \<and> c mod m \<noteq> 0 then 1 else 0)
     + (if c + m = r then 1 else 0)
     + (if c = r + m then 1 else 0)"

definition periodic_entry :: "nat \<Rightarrow> nat \<Rightarrow> nat \<Rightarrow> real" where
  "periodic_entry m r c =
     (if wrap_pair m {..<m} r c then 1
      else (if c + m * m = r + m then 1 else 0) + (if c + m = r + m * m then 1 else 0))"

definition code_matrix :: "nat \<Rightarrow> real \<Rightarrow> spmatrix" where
  "code_matrix m x =
     \<lparr>nrows = m * m, ncols = m * m,
      entry = (\<lambda>r c. if r < m * m \<and> c < m * m
                      then (band_entry m r c + periodic_entry m r c) / x else 0)\<rparr>"

definition neighbours :: "nat \<Rightarrow> nat \<Rightarrow> nat list" where
  "neighbours m r =
     (let i = r div m; j = r mod m
      in [((i + m - 1) mod m) * m + j, ((i + 1) mod m) * m + j,
          i * m + (j + m - 1) mod m, i * m + (j + 1) mod m])"

text \<open>The \<open>4 x 4\<close> grid that is \<open>1\<close> at cell \<open>(0,0)\<close> and \<open>0\<close> elsewhere, flattened.\<close>

definition impulse_4x4 :: "real list" where
  "impulse_4x4 = [1, 0, 0, 0, 0, 0, 0, 0, 0, 0, 0, 0, 0, 0, 0, 0]"

subsection \<open>The diagonals and the wrap corrections\<close>

lemma length_concat_replicate: "length (concat (replicate n xs)) = n * length xs"
  by (induction n) simp_all

lemma nth_concat_replicate:
  "k < n * length xs \<Longrightarrow> concat (replicate n xs) ! k = xs ! (k mod length xs)"
proof (induction n arbitrary: k)
  case 0
  then show ?case by simp
next
  case (Suc n)
  show ?case
  proof (cases "k < length xs")
    case True
    then show ?thesis by (simp add: nth_append)
  next
    case False
    then have "k - length xs < n * length xs" using Suc.prems by simp
    from Suc.IH [OF this] False show ?thesis
      by (simp add: nth_append le_mod_geq)
  qed
qed

lemma e2_nth:
  assumes "c < m * m"
  shows "concat (replicate m (replicate (m - 1) (1::real) @ [0])) ! c
         = (if c mod m = m - 1 then 0 else 1)"
proof -
  have m: "0 < m" using assms by (cases m) auto
  then have len: "length (replicate (m - 1) (1::real) @ [0]) = m" by simp
  have "c mod m < m" using m by simp
  then show ?thesis
    using nth_concat_replicate [of c m "replicate (m - 1) (1::real) @ [0]"] assms len
    by (auto simp: nth_append)
qed

lemma e3_nth:
  assumes "c < m * m"
  shows "concat (replicate m ([0] @ replicate (m - 1) (1::real))) ! c
         = (if c mod m = 0 then 0 else 1)"
proof -
  have m: "0 < m" using assms by (cases m) auto
  then have len: "length ([0] @ replicate (m - 1) (1::real)) = m" by simp
  have "c mod m < m" using m by simp
  then show ?thesis
    using nth_concat_replicate [of c m "[0] @ replicate (m - 1) (1::real)"] assms len
    by (auto simp: nth_Cons split: nat.splits)
qed

lemma setitem_ok:
  "r < nrows A \<Longrightarrow> c < ncols A \<Longrightarrow>
   setitem A r c x = Inr (A\<lparr>entry := (\<lambda>i j. if i = r \<and> j = c then x else entry A i j)\<rparr>)"
  by (simp add: setitem_def)

lemma left_right_BCs_closed:
  assumes "\<forall>i\<in>set ixs. i < m" "nrows P = m * m" "ncols P = m * m"
  shows "left_right_BCs m ixs P
         = Inr (P\<lparr>entry := (\<lambda>r c. if wrap_pair m (set ixs) r c then 1 else entry P r c)\<rparr>)"
  using assms
proof (induction ixs arbitrary: P)
  case Nil
  then show ?case by (simp add: wrap_pair_def)
next
  case (Cons i rest)
  have i: "i < m" using Cons.prems by simp
  then have m: "0 < m" by simp
  have "Suc i \<le> m" using i by simp
  then have "Suc i * m \<le> m * m" by (rule mult_le_mono1)
  then have "(i + 1) * m \<le> m * m" by simp
  then have r2: "(i + 1) * m - 1 < m * m" using m by (cases m) auto
  have r1: "i * m < m * m" using i m by simp
  let ?P1 = "P\<lparr>entry := (\<lambda>r c. if r = i * m \<and> c = (i + 1) * m - 1 then 1 else entry P r c)\<rparr>"
  let ?P2 = "?P1\<lparr>entry := (\<lambda>r c. if r = (i + 1) * m - 1 \<and> c = i * m then 1 else entry ?P1 r c)\<rparr>"
  have s1: "setitem P (i * m) ((i + 1) * m - 1) 1 = Inr ?P1"
    by (rule setitem_ok) (use r1 r2 Cons.prems in simp_all)
  have s2: "setitem ?P1 ((i + 1) * m - 1) (i * m) 1 = Inr ?P2"
    by (rule setitem_ok) (use r1 r2 Cons.prems in simp_all)
  have "left_right_BCs m (i # rest) P = left_right_BCs m rest ?P2"
    unfolding left_right_BCs.simps s1 and_then_def sum.case s2 ..
  also have "\<dots> = Inr (?P2\<lparr>entry := (\<lambda>r c. if wrap_pair m (set rest) r c then 1 else entry ?P2 r c)\<rparr>)"
    using Cons.prems by (intro Cons.IH) simp_all
  also have "\<dots> = Inr (P\<lparr>entry := (\<lambda>r c. if wrap_pair m (set (i # rest)) r c then 1 else entry P r c)\<rparr>)"
    by (rule arg_cong [where f = Inr], rule spmatrix.equality)
       (auto simp: wrap_pair_def fun_eq_iff)
  finally show ?case .
qed

lemma spdiags_ok:
  "length data = length diags \<Longrightarrow> distinct diags \<Longrightarrow>
   spdiags data diags nr nc =
     Inr \<lparr>nrows = nr, ncols = nc,
          entry = (\<lambda>i j. if i < nr \<and> j < nc
                   then (\<Sum>(d, k) \<leftarrow> zip data diags.
                           if int j - int i = k \<and> j < length d then d ! j else 0)
                   else 0)\<rparr>"
  by (simp add: spdiags_def)

lemma m_lt_square: "2 \<le> (m::nat) \<Longrightarrow> m < m * m"
  by (cases m) auto

lemma wrap_pair_in_range:
  assumes "wrap_pair m {..<m} r c"
  shows "r < m * m \<and> c < m * m"
proof -
  from assms obtain i where i: "i < m"
    and rc: "(r = i * m \<and> c = (i + 1) * m - 1) \<or> (r = (i + 1) * m - 1 \<and> c = i * m)"
    by (auto simp: wrap_pair_def)
  have m: "0 < m" using i by simp
  have "Suc i \<le> m" using i by simp
  then have "Suc i * m \<le> m * m" by (rule mult_le_mono1)
  then have "(i + 1) * m - 1 < m * m" using m by (cases m) auto
  moreover have "i * m < m * m" using i m by simp
  ultimately show ?thesis using rc by auto
qed

lemma builder_sum_form:
  assumes m: "2 \<le> m"
  shows "five_pt_laplacian_sparse_periodic m a b
         = idiv_sp (code_matrix m 1) (((b - a) / (real m + 1)) ^ 2)"
proof -
  define e where "e = replicate (m ^ 2) (1 :: real)"
  define e2 where "e2 = concat (replicate m (replicate (m - 1) (1::real) @ [0]))"
  define e3 where "e3 = concat (replicate m ([0] @ replicate (m - 1) (1::real)))"
  define x where "x = ((b - a) / (real m + 1)) ^ 2"
  have sq: "m ^ 2 = m * m" by (simp add: power2_eq_square)
  have msq: "m < m * m" using m by (rule m_lt_square)
  have len: "length e = m * m" "length e2 = m * m" "length e3 = m * m"
    using m by (simp_all add: e_def e2_def e3_def length_concat_replicate sq)
  have d1: "distinct [0, - 1, 1, - int m, int m]" using m by simp
  have d2: "distinct [int m - int m ^ 2, int m ^ 2 - int m]"
  proof -
    have "int m < int m * int m" using msq by (metis of_nat_less_iff of_nat_mult)
    then show ?thesis using m by (simp add: power2_eq_square)
  qed
  define A where "A = \<lparr>nrows = m ^ 2, ncols = m ^ 2,
          entry = (\<lambda>i j. if i < m ^ 2 \<and> j < m ^ 2
                   then (\<Sum>(d, k) \<leftarrow> zip [map (\<lambda>x. - 4 * x) e, e2, e3, e, e] [0, - 1, 1, - int m, int m].
                           if int j - int i = k \<and> j < length d then d ! j else 0)
                   else 0)\<rparr>"
  define P0 where "P0 = \<lparr>nrows = m ^ 2, ncols = m ^ 2,
          entry = (\<lambda>i j. if i < m ^ 2 \<and> j < m ^ 2
                   then (\<Sum>(d, k) \<leftarrow> zip [e, e] [int m - int m ^ 2, int m ^ 2 - int m].
                           if int j - int i = k \<and> j < length d then d ! j else 0)
                   else 0)\<rparr>"
  define P where "P = P0\<lparr>entry := (\<lambda>r c. if wrap_pair m (set [0..<m]) r c then 1 else entry P0 r c)\<rparr>"
  define S where "S = \<lparr>nrows = nrows A, ncols = ncols A,
                entry = (\<lambda>i j. entry A i j + entry P i j)\<rparr>"
  have A: "spdiags [map (\<lambda>x. - 4 * x) e, e2, e3, e, e] [0, - 1, 1, - int m, int m] (m ^ 2) (m ^ 2) = Inr A"
    unfolding A_def by (rule spdiags_ok) (simp_all add: d1 del: distinct.simps)
  have P0: "spdiags [e, e] [int m - int m ^ 2, int m ^ 2 - int m] (m ^ 2) (m ^ 2) = Inr P0"
    unfolding P0_def by (rule spdiags_ok) (simp_all add: d2 del: distinct.simps)
  have P: "left_right_BCs m [0..<m] P0 = Inr P"
    unfolding P_def by (rule left_right_BCs_closed) (simp_all add: P0_def sq)
  have S: "add_sp A P = Inr S"
    by (simp add: add_sp_def S_def A_def P_def P0_def)
  have run: "five_pt_laplacian_sparse_periodic m a b = idiv_sp S x"
    unfolding five_pt_laplacian_sparse_periodic_def Let_def
    unfolding e_def [symmetric] e2_def [symmetric] e3_def [symmetric] x_def [symmetric]
    unfolding A and_then_def sum.case P0 P S ..
  have "S = code_matrix m 1"
  proof (rule spmatrix.equality)
    show "entry S = entry (code_matrix m 1)"
    proof (intro ext)
      fix r c
      show "entry S r c = entry (code_matrix m 1) r c"
      proof (cases "r < m * m \<and> c < m * m")
        case True
        then have r: "r < m * m" and c: "c < m * m" by simp_all
        have n0: "map (\<lambda>x. - 4 * x) e ! c = - 4" and n3: "e ! c = 1"
          using c by (simp_all add: e_def sq)
        have n1: "e2 ! c = (if c mod m = m - 1 then 0 else 1)"
          unfolding e2_def using c by (rule e2_nth)
        have n2: "e3 ! c = (if c mod m = 0 then 0 else 1)"
          unfolding e3_def using c by (rule e3_nth)
        have o0: "(int c - int r = 0) = (c = r)" by auto
        have o1: "(int c - int r = - 1) = (c + 1 = r)" by auto
        have o2: "(int c - int r = 1) = (c = r + 1)" by auto
        have o3: "(int c - int r = - int m) = (c + m = r)" by auto
        have o4: "(int c - int r = int m) = (c = r + m)" by auto
        have o5: "(int c - int r = int m - int m ^ 2) = (c + m * m = r + m)"
        proof -
          have "(int c - int r = int m - int m ^ 2) = (int (c + m * m) = int (r + m))"
            by (simp add: power2_eq_square algebra_simps)
          then show ?thesis by (simp only: of_nat_eq_iff)
        qed
        have o6: "(int c - int r = int m ^ 2 - int m) = (c + m = r + m * m)"
        proof -
          have "(int c - int r = int m ^ 2 - int m) = (int (c + m) = int (r + m * m))"
            by (simp add: power2_eq_square algebra_simps)
          then show ?thesis by (simp only: of_nat_eq_iff)
        qed
        have ea: "entry A r c = band_entry m r c"
          unfolding A_def band_entry_def using r c
          by (simp only: spmatrix.simps zip.simps list.simps sum_list.Cons sum_list.Nil
                case_prod_conv o0 o1 o2 o3 o4 n0 n1 n2 n3 len sq length_map)
             simp
        have ep0: "entry P0 r c = (if c + m * m = r + m then 1 else 0) + (if c + m = r + m * m then 1 else 0)"
          unfolding P0_def using r c
          by (simp only: spmatrix.simps zip.simps list.simps sum_list.Cons sum_list.Nil
                case_prod_conv o5 o6 n3 len sq)
             simp
        have ep: "entry P r c = periodic_entry m r c"
          by (simp add: P_def periodic_entry_def ep0 atLeast0LessThan)
        show ?thesis using True by (simp add: S_def code_matrix_def ea ep)
      next
        case False
        then have "\<not> wrap_pair m {..<m} r c" using wrap_pair_in_range by blast
        then have "entry P r c = 0" using False
          by (auto simp: P_def P0_def sq atLeast0LessThan)
        moreover have "entry A r c = 0" using False by (auto simp: A_def sq)
        ultimately show ?thesis using False by (auto simp: S_def code_matrix_def)
      qed
    qed
  qed (simp_all add: S_def A_def code_matrix_def sq)
  with run show ?thesis by (simp add: x_def)
qed

lemma builder_code_form:
  assumes m: "2 \<le> m" and ab: "a \<noteq> b"
  shows "five_pt_laplacian_sparse_periodic m a b
         = Inr (code_matrix m (((b - a) / (real m + 1)) ^ 2))"
proof -
  have "((b - a) / (real m + 1)) ^ 2 \<noteq> 0" using ab by simp
  then show ?thesis
    unfolding builder_sum_form [OF m] by (simp add: idiv_sp_def code_matrix_def fun_eq_iff)
qed

lemma builder_fails:
  "m < 2 \<Longrightarrow> five_pt_laplacian_sparse_periodic m a b = Inl ValueError"
  "2 \<le> m \<Longrightarrow> a = b \<Longrightarrow> five_pt_laplacian_sparse_periodic m a b = Inl ZeroDivisionError"
proof -
  assume "m < 2"
  then have "m = 0 \<or> m = 1" by auto
  then show "five_pt_laplacian_sparse_periodic m a b = Inl ValueError"
    by (auto simp: five_pt_laplacian_sparse_periodic_def spdiags_def and_then_def)
next
  assume "2 \<le> m" and "a = b"
  then show "five_pt_laplacian_sparse_periodic m a b = Inl ZeroDivisionError"
    unfolding builder_sum_form [OF \<open>2 \<le> m\<close>] by (simp add: idiv_sp_def)
qed

lemma cell_eq_iff:
  fixes m :: nat
  assumes "j < m" "j' < m"
  shows "(i * m + j = i' * m + j') = (i = i' \<and> j = j')"
proof
  assume eq: "i * m + j = i' * m + j'"
  have "(i * m + j) div m = i" "(i' * m + j') div m = i'"
       "(i * m + j) mod m = j" "(i' * m + j') mod m = j'"
    using assms by simp_all
  with eq show "i = i' \<and> j = j'" by metis
qed simp

lemma pred_mod:
  fixes m :: nat
  assumes "i < m"
  shows "(i + m - 1) mod m = (if i = 0 then m - 1 else i - 1)"
proof (cases "i = 0")
  case True
  then show ?thesis using assms by simp
next
  case False
  then have "i + m - 1 = (i - 1) + m" by simp
  then have "(i + m - 1) mod m = (i - 1) mod m" by simp
  then show ?thesis using False assms by simp
qed

lemma succ_mod:
  fixes m :: nat
  assumes "i < m"
  shows "(i + 1) mod m = (if i + 1 = m then 0 else i + 1)"
proof (cases "i + 1 = m")
  case True
  then have "(i + 1) mod m = m mod m" by simp
  then show ?thesis using True by simp
next
  case False
  then have "i + 1 < m" using assms by simp
  then show ?thesis using False by simp
qed

lemma stencil_cells:
  assumes m: "2 \<le> m" and i: "i < m" and j: "j < m" and i': "i' < m" and j': "j' < m"
  shows "band_entry m (i * m + j) (i' * m + j') + periodic_entry m (i * m + j) (i' * m + j')
         = (if i' = i \<and> j' = j then - 4 else 0)
           + (if i' = (i + m - 1) mod m \<and> j' = j then 1 else 0)
           + (if i' = (i + 1) mod m \<and> j' = j then 1 else 0)
           + (if i' = i \<and> j' = (j + m - 1) mod m then 1 else 0)
           + (if i' = i \<and> j' = (j + 1) mod m then 1 else 0)"
proof -
  let ?r = "i * m + j" and ?c = "i' * m + j'"
  have c0: "(?c = ?r) = (i' = i \<and> j' = j)"
    by (rule cell_eq_iff [OF j' j])
  have c1: "(?c + 1 = ?r \<and> ?c mod m \<noteq> m - 1) = (i' = i \<and> j' + 1 = j)"
  proof (cases "j' + 1 < m")
    case True
    have "(?c + 1 = ?r) = (i' * m + (j' + 1) = i * m + j)" by simp
    also have "\<dots> = (i' = i \<and> j' + 1 = j)" using cell_eq_iff [OF True j] .
    finally show ?thesis using True j' by auto
  next
    case False
    then show ?thesis using j j' by auto
  qed
  have c2: "(?c = ?r + 1 \<and> ?c mod m \<noteq> 0) = (i' = i \<and> j' = j + 1)"
  proof (cases "j + 1 < m")
    case True
    have "(?c = ?r + 1) = (i' * m + j' = i * m + (j + 1))" by simp
    also have "\<dots> = (i' = i \<and> j' = j + 1)" using cell_eq_iff [OF j' True] .
    finally show ?thesis using True j' by auto
  next
    case False
    then have jm: "j + 1 = m" using j by simp
    have "?r + 1 = i * m + (j + 1)" by simp
    also have "\<dots> = (i + 1) * m + 0" unfolding jm by simp
    finally have eq: "?r + 1 = (i + 1) * m + 0" .
    have "(?c = ?r + 1) = (i' * m + j' = (i + 1) * m + 0)" by (simp only: eq)
    also have "\<dots> = (i' = i + 1 \<and> j' = 0)"
    proof -
      have "0 < m" using m by simp
      then show ?thesis by (rule cell_eq_iff [OF j'])
    qed
    finally show ?thesis using jm j' by auto
  qed
  have c3: "(?c + m = ?r) = (i' + 1 = i \<and> j' = j)"
  proof -
    have "(?c + m = ?r) = ((i' + 1) * m + j' = i * m + j)" by (simp add: algebra_simps)
    also have "\<dots> = (i' + 1 = i \<and> j' = j)" by (rule cell_eq_iff [OF j' j])
    finally show ?thesis .
  qed
  have c4: "(?c = ?r + m) = (i' = i + 1 \<and> j' = j)"
  proof -
    have "(?c = ?r + m) = (i' * m + j' = (i + 1) * m + j)" by (simp add: algebra_simps)
    also have "\<dots> = (i' = i + 1 \<and> j' = j)" by (rule cell_eq_iff [OF j' j])
    finally show ?thesis .
  qed
  have c5: "(?c + m * m = ?r + m) = (i' + m = i + 1 \<and> j' = j)"
  proof -
    have "(?c + m * m = ?r + m) = ((i' + m) * m + j' = (i + 1) * m + j)"
      by (simp add: algebra_simps)
    also have "\<dots> = (i' + m = i + 1 \<and> j' = j)" by (rule cell_eq_iff [OF j' j])
    finally show ?thesis .
  qed
  have c6: "(?c + m = ?r + m * m) = (i' + 1 = i + m \<and> j' = j)"
  proof -
    have "(?c + m = ?r + m * m) = ((i' + 1) * m + j' = (i + m) * m + j)"
      by (simp add: algebra_simps)
    also have "\<dots> = (i' + 1 = i + m \<and> j' = j)" by (rule cell_eq_iff [OF j' j])
    finally show ?thesis .
  qed
  have c7: "wrap_pair m {..<m} ?r ?c
            = (i' = i \<and> ((j = 0 \<and> j' = m - 1) \<or> (j = m - 1 \<and> j' = 0)))"
  proof -
    have m0: "0 < m" "m - 1 < m" using m by simp_all
    have e: "(k + 1) * m - 1 = k * m + (m - 1)" for k
      using m0 by (simp add: algebra_simps)
    have a: "(?r = k * m) = (i = k \<and> j = 0)" for k
      using cell_eq_iff [OF j m0(1), of i k] by simp
    have b: "(?c = k * m + (m - 1)) = (i' = k \<and> j' = m - 1)" for k
      using cell_eq_iff [OF j' m0(2), of i' k] by simp
    have a': "(?c = k * m) = (i' = k \<and> j' = 0)" for k
      using cell_eq_iff [OF j' m0(1), of i' k] by simp
    have b': "(?r = k * m + (m - 1)) = (i = k \<and> j = m - 1)" for k
      using cell_eq_iff [OF j m0(2), of i k] by simp
    show ?thesis
      unfolding wrap_pair_def e a b a' b' using i i' by auto
  qed
  have V: "(if i' + 1 = i \<and> j' = j then 1 else 0) + (if i' = i + 1 \<and> j' = j then 1 else 0)
           + ((if i' + m = i + 1 \<and> j' = j then 1 else 0)
              + (if i' + 1 = i + m \<and> j' = j then 1 else (0::real)))
           = (if i' = (i + m - 1) mod m \<and> j' = j then 1 else 0)
             + (if i' = (i + 1) mod m \<and> j' = j then 1 else 0)"
    unfolding pred_mod [OF i] succ_mod [OF i] using m i i' by (cases "j' = j") auto
  have H: "(if i' = i \<and> j' + 1 = j then 1 else 0) + (if i' = i \<and> j' = j + 1 then 1 else 0)
           + (if i' = i \<and> ((j = 0 \<and> j' = m - 1) \<or> (j = m - 1 \<and> j' = 0)) then 1 else (0::real))
           = (if i' = i \<and> j' = (j + m - 1) mod m then 1 else 0)
             + (if i' = i \<and> j' = (j + 1) mod m then 1 else 0)"
    unfolding pred_mod [OF j] succ_mod [OF j] using m j j' by (cases "i' = i") auto
  have X: "(if i' = i \<and> ((j = 0 \<and> j' = m - 1) \<or> (j = m - 1 \<and> j' = 0)) then 1
            else (if i' + m = i + 1 \<and> j' = j then 1 else 0)
                 + (if i' + 1 = i + m \<and> j' = j then 1 else (0::real)))
           = (if i' = i \<and> ((j = 0 \<and> j' = m - 1) \<or> (j = m - 1 \<and> j' = 0)) then 1 else 0)
             + ((if i' + m = i + 1 \<and> j' = j then 1 else 0)
                + (if i' + 1 = i + m \<and> j' = j then 1 else 0))"
    using m i i' by (cases "i' = i") auto
  show ?thesis
    unfolding band_entry_def periodic_entry_def c0 c1 c2 c3 c4 c5 c6 c7 X
    using V H by linarith
qed

lemma div_lt_side:
  fixes m :: nat
  assumes "r < m * m"
  shows "r div m < m" "r mod m < m"
proof -
  have m: "0 < m" using assms by (cases m) auto
  show "r div m < m" using assms by (simp add: less_mult_imp_div_less)
  show "r mod m < m" using m by simp
qed

lemma cell_iff_linear:
  fixes m :: nat
  assumes "c < m * m" "y < m"
  shows "(c div m = x \<and> c mod m = y) = (c = x * m + y)"
proof -
  have "c = (c div m) * m + c mod m" by simp
  then have "(c = x * m + y) = ((c div m) * m + c mod m = x * m + y)" by simp
  also have "\<dots> = (c div m = x \<and> c mod m = y)"
    by (rule cell_eq_iff [OF div_lt_side(2) [OF assms(1)] assms(2)])
  finally show ?thesis by simp
qed

lemma code_entry_linear:
  assumes m: "2 \<le> m" and r: "r < m * m" and c: "c < m * m"
  shows "band_entry m r c + periodic_entry m r c
         = (if c = r then - 4 else 0) + (\<Sum>n \<leftarrow> neighbours m r. if c = n then 1 else 0)"
proof -
  define i j i' j' where "i = r div m" and "j = r mod m" and "i' = c div m" and "j' = c mod m"
  have b: "i < m" "j < m" "i' < m" "j' < m"
    using div_lt_side [OF r] div_lt_side [OF c] by (simp_all add: i_def j_def i'_def j'_def)
  have rr: "r = i * m + j" and cc: "c = i' * m + j'"
    by (simp_all add: i_def j_def i'_def j'_def)
  have m0: "0 < m" using m by simp
  have q: "(i' = x \<and> j' = y) = (c = x * m + y)" if "y < m" for x y
    unfolding i'_def j'_def using c that by (rule cell_iff_linear)
  have q0: "(i' = i \<and> j' = j) = (c = r)"
    using q [OF b(2), of i] rr by simp
  have q1: "(i' = (i + m - 1) mod m \<and> j' = j) = (c = ((i + m - 1) mod m) * m + j)"
    by (rule q [OF b(2)])
  have q2: "(i' = (i + 1) mod m \<and> j' = j) = (c = ((i + 1) mod m) * m + j)"
    by (rule q [OF b(2)])
  have q3: "(i' = i \<and> j' = (j + m - 1) mod m) = (c = i * m + (j + m - 1) mod m)"
    by (rule q) (use m0 in simp)
  have q4: "(i' = i \<and> j' = (j + 1) mod m) = (c = i * m + (j + 1) mod m)"
    by (rule q) (use m0 in simp)
  have "band_entry m r c + periodic_entry m r c
        = band_entry m (i * m + j) (i' * m + j') + periodic_entry m (i * m + j) (i' * m + j')"
    by (simp only: rr [symmetric] cc [symmetric])
  also note stencil_cells [OF m b]
  finally show ?thesis
    unfolding q0 q1 q2 q3 q4 neighbours_def Let_def i_def [symmetric] j_def [symmetric]
    by simp
qed

lemma neighbours_in_range:
  assumes "r < m * m" "n \<in> set (neighbours m r)"
  shows "n < m * m"
proof -
  have m: "0 < m" using assms(1) by (cases m) auto
  have cell: "x * m + y < m * m" if "x < m" "y < m" for x y
  proof -
    have "x * m + y < x * m + m" using that by simp
    also have "\<dots> = Suc x * m" by simp
    also have "\<dots> \<le> m * m" using that by (intro mult_le_mono1) simp
    finally show ?thesis .
  qed
  have "r div m < m" "r mod m < m" using div_lt_side [OF assms(1)] .
  moreover have "k mod m < m" for k using m by simp
  ultimately show ?thesis
    using assms(2) by (auto simp: neighbours_def Let_def intro!: cell)
qed

lemma sum_list_delta:
  fixes U :: "real list"
  assumes "n < M"
  shows "(\<Sum>c \<leftarrow> [0..<M]. (if c = n then 1 else 0) * U ! c) = U ! n"
proof -
  have "(\<Sum>c \<leftarrow> [0..<M]. (if c = n then 1 else 0) * U ! c)
        = (\<Sum>c \<in> {0..<M}. (if c = n then 1 else 0) * U ! c)"
    by (simp add: interv_sum_list_conv_sum_set_nat)
  also have "\<dots> = (\<Sum>c \<in> {0..<M}. if c = n then U ! c else 0)"
    by (intro sum.cong) auto
  also have "\<dots> = U ! n" using assms by simp
  finally show ?thesis .
qed

lemma row_times_vector:
  fixes U :: "real list"
  assumes m: "2 \<le> m" and r: "r < m * m"
  shows "(\<Sum>c \<leftarrow> [0..<m * m]. entry (code_matrix m x) r c * U ! c)
         = ((\<Sum>n \<leftarrow> neighbours m r. U ! n) - 4 * U ! r) / x"
proof -
  let ?M = "m * m"
  obtain n1 n2 n3 n4 where ns: "neighbours m r = [n1, n2, n3, n4]"
    by (simp add: neighbours_def Let_def)
  have inr: "n1 < ?M" "n2 < ?M" "n3 < ?M" "n4 < ?M"
    using neighbours_in_range [OF r] ns by simp_all
  have "(\<Sum>c \<leftarrow> [0..<?M]. entry (code_matrix m x) r c * U ! c)
        = (\<Sum>c \<in> {0..<?M}. entry (code_matrix m x) r c * U ! c)"
    by (simp add: interv_sum_list_conv_sum_set_nat)
  also have "\<dots> = (\<Sum>c \<in> {0..<?M}.
        ((if c = r then - 4 else 0) * U ! c
         + ((if c = n1 then 1 else 0) * U ! c + ((if c = n2 then 1 else 0) * U ! c
         + ((if c = n3 then 1 else 0) * U ! c + (if c = n4 then 1 else 0) * U ! c)))) / x)"
  proof (rule sum.cong)
    fix c assume "c \<in> {0..<?M}"
    then have c: "c < ?M" by simp
    show "entry (code_matrix m x) r c * U ! c =
        ((if c = r then - 4 else 0) * U ! c
         + ((if c = n1 then 1 else 0) * U ! c + ((if c = n2 then 1 else 0) * U ! c
         + ((if c = n3 then 1 else 0) * U ! c + (if c = n4 then 1 else 0) * U ! c)))) / x"
      using r c by (simp add: code_matrix_def code_entry_linear [OF m r c] ns algebra_simps
            add_divide_distrib)
  qed simp
  also have "\<dots> = ((\<Sum>c \<in> {0..<?M}. (if c = r then - 4 else 0) * U ! c)
         + ((\<Sum>c \<in> {0..<?M}. (if c = n1 then 1 else 0) * U ! c)
         + ((\<Sum>c \<in> {0..<?M}. (if c = n2 then 1 else 0) * U ! c)
         + ((\<Sum>c \<in> {0..<?M}. (if c = n3 then 1 else 0) * U ! c)
         + (\<Sum>c \<in> {0..<?M}. (if c = n4 then 1 else 0) * U ! c))))) / x"
    by (simp only: sum_divide_distrib [symmetric] sum.distrib)
  finally have step: "(\<Sum>c \<leftarrow> [0..<?M]. entry (code_matrix m x) r c * U ! c)
       = ((\<Sum>c \<in> {0..<?M}. (if c = r then - 4 else 0) * U ! c)
         + ((\<Sum>c \<in> {0..<?M}. (if c = n1 then 1 else 0) * U ! c)
         + ((\<Sum>c \<in> {0..<?M}. (if c = n2 then 1 else 0) * U ! c)
         + ((\<Sum>c \<in> {0..<?M}. (if c = n3 then 1 else 0) * U ! c)
         + (\<Sum>c \<in> {0..<?M}. (if c = n4 then 1 else 0) * U ! c))))) / x" .
  have centre: "(\<Sum>c \<in> {0..<?M}. (if c = r then - 4 else 0) * U ! c) = - 4 * U ! r"
  proof -
    have "(\<Sum>c \<in> {0..<?M}. (if c = r then - 4 else 0) * U ! c)
          = (\<Sum>c \<in> {0..<?M}. if c = r then - 4 * U ! c else 0)"
      by (intro sum.cong) auto
    then show ?thesis using r by simp
  qed
  have nb: "(\<Sum>c \<in> {0..<?M}. (if c = k then 1 else 0) * U ! c) = U ! k" if "k < ?M" for k
    using sum_list_delta [OF that, of U] by (simp add: interv_sum_list_conv_sum_set_nat)
  show ?thesis
    unfolding step centre nb [OF inr(1)] nb [OF inr(2)] nb [OF inr(3)] nb [OF inr(4)]
    by (simp add: ns)
qed

subsection \<open>The operator applied to a grid\<close>

lemma dot_code_matrix:
  assumes m: "2 \<le> m" and U: "length U = m * m"
  shows "dot (code_matrix m x) U
         = Inr (map (\<lambda>r. ((\<Sum>n \<leftarrow> neighbours m r. U ! n) - 4 * U ! r) / x) [0..<m * m])"
proof -
  have "map (\<lambda>r. \<Sum>c \<leftarrow> [0..<m * m]. entry (code_matrix m x) r c * U ! c) [0..<m * m]
        = map (\<lambda>r. ((\<Sum>n \<leftarrow> neighbours m r. U ! n) - 4 * U ! r) / x) [0..<m * m]"
    by (rule map_cong [OF refl]) (simp add: row_times_vector [OF m])
  then show ?thesis using U by (simp add: dot_def code_matrix_def)
qed

lemma laplacian_stencil:
  assumes m: "2 \<le> m" and ab: "a \<noteq> b" and U: "length U = m * m" and i: "i < m" and j: "j < m"
  shows "\<exists>L V. five_pt_laplacian_sparse_periodic m a b = Inr L \<and> dot L U = Inr V
           \<and> V ! (i * m + j)
             = (U ! (((i + m - 1) mod m) * m + j) + U ! (((i + 1) mod m) * m + j)
                + U ! (i * m + (j + m - 1) mod m) + U ! (i * m + (j + 1) mod m)
                - 4 * U ! (i * m + j)) / ((b - a) / (real m + 1)) ^ 2"
proof -
  let ?r = "i * m + j"
  have r: "?r < m * m"
  proof -
    have "?r < i * m + m" using j by simp
    also have "\<dots> = Suc i * m" by simp
    also have "\<dots> \<le> m * m" using i by (intro mult_le_mono1) simp
    finally show ?thesis .
  qed
  have dm: "?r div m = i" "?r mod m = j" using j by simp_all
  have "map (\<lambda>r. ((\<Sum>n \<leftarrow> neighbours m r. U ! n) - 4 * U ! r) / ((b - a) / (real m + 1)) ^ 2)
          [0..<m * m] ! ?r
        = ((\<Sum>n \<leftarrow> neighbours m ?r. U ! n) - 4 * U ! ?r) / ((b - a) / (real m + 1)) ^ 2"
    using r by simp
  also have "(\<Sum>n \<leftarrow> neighbours m ?r. U ! n)
        = U ! (((i + m - 1) mod m) * m + j) + U ! (((i + 1) mod m) * m + j)
          + U ! (i * m + (j + m - 1) mod m) + U ! (i * m + (j + 1) mod m)"
    unfolding neighbours_def Let_def dm by simp
  finally show ?thesis
    using builder_code_form [OF m ab] dot_code_matrix [OF m U] by simp
qed

lemma band_entry_sym:
  assumes "0 < m"
  shows "band_entry m c r = band_entry m r c"
proof -
  have s: "(k mod m \<noteq> m - 1) = (Suc k mod m \<noteq> 0)" for k
    using assms by (auto simp: mod_Suc)
  have a: "(r + 1 = c \<and> r mod m \<noteq> m - 1) = (c = r + 1 \<and> c mod m \<noteq> 0)"
    using s [of r] by auto
  have b: "(r = c + 1 \<and> r mod m \<noteq> 0) = (c + 1 = r \<and> c mod m \<noteq> m - 1)"
    using s [of c] by auto
  have c: "(r = c) = (c = r)" "(r + m = c) = (c = r + m)" "(r = c + m) = (c + m = r)"
    by auto
  show ?thesis unfolding band_entry_def a b c by simp
qed

lemma periodic_entry_sym: "periodic_entry m c r = periodic_entry m r c"
proof -
  have "wrap_pair m I c r = wrap_pair m I r c" for I
    by (auto simp: wrap_pair_def)
  moreover have "(r + m * m = c + m) = (c + m = r + m * m)" "(r + m = c + m * m) = (c + m * m = r + m)"
    by auto
  ultimately show ?thesis unfolding periodic_entry_def by simp
qed

lemma code_matrix_symmetric:
  assumes "0 < m"
  shows "transpose_sp (code_matrix m x) = code_matrix m x"
  unfolding transpose_sp_def code_matrix_def
  by (simp add: fun_eq_iff band_entry_sym [OF assms, symmetric] periodic_entry_sym [symmetric] conj_commute)

subsection \<open>The rows of the operator\<close>

lemma self_not_neighbour:
  assumes m: "2 \<le> m" and r: "r < m * m"
  shows "r \<notin> set (neighbours m r)"
proof -
  define i j where "i = r div m" and "j = r mod m"
  have b: "i < m" "j < m" using div_lt_side [OF r] by (simp_all add: i_def j_def)
  have rr: "r = i * m + j" by (simp add: i_def j_def)
  have m0: "0 < m" using m by simp
  have n1: "(((i + m - 1) mod m) * m + j = i * m + j) = ((i + m - 1) mod m = i \<and> j = j)"
    by (rule cell_eq_iff [OF b(2) b(2)])
  have n2: "(((i + 1) mod m) * m + j = i * m + j) = ((i + 1) mod m = i \<and> j = j)"
    by (rule cell_eq_iff [OF b(2) b(2)])
  have n3: "(i * m + (j + m - 1) mod m = i * m + j) = (i = i \<and> (j + m - 1) mod m = j)"
    by (rule cell_eq_iff [OF _ b(2)]) (use m0 in simp)
  have n4: "(i * m + (j + 1) mod m = i * m + j) = (i = i \<and> (j + 1) mod m = j)"
    by (rule cell_eq_iff [OF _ b(2)]) (use m0 in simp)
  have "(i + m - 1) mod m \<noteq> i" "(i + 1) mod m \<noteq> i" "(j + m - 1) mod m \<noteq> j" "(j + 1) mod m \<noteq> j"
    unfolding pred_mod [OF b(1)] succ_mod [OF b(1)] pred_mod [OF b(2)] succ_mod [OF b(2)]
    using m b by auto
  then show ?thesis
    unfolding neighbours_def Let_def i_def [symmetric] j_def [symmetric]
    using n1 n2 n3 n4 rr by auto
qed

lemma neighbours_distinct:
  assumes m: "3 \<le> m" and r: "r < m * m"
  shows "distinct (neighbours m r)"
proof -
  define i j where "i = r div m" and "j = r mod m"
  have b: "i < m" "j < m" using div_lt_side [OF r] by (simp_all add: i_def j_def)
  have m0: "0 < m" using m by simp
  define iu id jl jr where "iu = (i + m - 1) mod m" and "id = (i + 1) mod m"
    and "jl = (j + m - 1) mod m" and "jr = (j + 1) mod m"
  have bb: "jl < m" "jr < m" using m0 by (simp_all add: jl_def jr_def)
  have ne: "iu \<noteq> id" "iu \<noteq> i" "id \<noteq> i" "jl \<noteq> jr"
    unfolding iu_def id_def jl_def jr_def
      pred_mod [OF b(1)] succ_mod [OF b(1)] pred_mod [OF b(2)] succ_mod [OF b(2)]
    using m b by auto
  have q: "(x * m + y = x' * m + y') = (x = x' \<and> y = y')" if "y < m" "y' < m" for x y x' y'
    using that by (rule cell_eq_iff)
  show ?thesis
    unfolding neighbours_def Let_def i_def [symmetric] j_def [symmetric]
      iu_def [symmetric] id_def [symmetric] jl_def [symmetric] jr_def [symmetric]
    using ne b bb by (simp add: q)
qed

lemma entry_nonzero_iff:
  assumes m: "2 \<le> m" and x: "x \<noteq> 0" and r: "r < m * m" and c: "c < m * m"
  shows "(entry (code_matrix m x) r c \<noteq> 0) = (c = r \<or> c \<in> set (neighbours m r))"
proof -
  obtain n1 n2 n3 n4 where ns: "neighbours m r = [n1, n2, n3, n4]"
    by (simp add: neighbours_def Let_def)
  have self: "r \<noteq> n1" "r \<noteq> n2" "r \<noteq> n3" "r \<noteq> n4"
    using self_not_neighbour [OF m r] ns by auto
  have "entry (code_matrix m x) r c
        = ((if c = r then - 4 else 0) + (\<Sum>n \<leftarrow> neighbours m r. if c = n then 1 else 0)) / x"
    using r c by (simp add: code_matrix_def code_entry_linear [OF m r c])
  then show ?thesis using x self by (auto simp: ns)
qed

lemma nonzero_columns:
  assumes m: "2 \<le> m" and x: "x \<noteq> 0" and r: "r < m * m"
  shows "length (filter (\<lambda>c. entry (code_matrix m x) r c \<noteq> 0) [0..<m * m])
         = Suc (card (set (neighbours m r)))"
proof -
  have "length (filter (\<lambda>c. entry (code_matrix m x) r c \<noteq> 0) [0..<m * m])
        = card ({c. entry (code_matrix m x) r c \<noteq> 0} \<inter> set [0..<m * m])"
    by (rule distinct_length_filter) simp
  also have "{c. entry (code_matrix m x) r c \<noteq> 0} \<inter> set [0..<m * m]
             = insert r (set (neighbours m r))"
    using entry_nonzero_iff [OF m x r] neighbours_in_range [OF r] r by auto
  also have "card (insert r (set (neighbours m r))) = Suc (card (set (neighbours m r)))"
    using self_not_neighbour [OF m r] by simp
  finally show ?thesis .
qed

lemma row_sum_zero:
  assumes m: "2 \<le> m" and r: "r < m * m"
  shows "(\<Sum>c \<leftarrow> [0..<m * m]. entry (code_matrix m x) r c) = 0"
proof -
  have "(\<Sum>c \<leftarrow> [0..<m * m]. entry (code_matrix m x) r c)
        = (\<Sum>c \<leftarrow> [0..<m * m]. entry (code_matrix m x) r c * replicate (m * m) 1 ! c)"
    by (rule arg_cong [where f = sum_list], rule map_cong [OF refl]) simp
  also have "\<dots> = ((\<Sum>n \<leftarrow> neighbours m r. replicate (m * m) (1::real) ! n)
                     - 4 * replicate (m * m) 1 ! r) / x"
    by (rule row_times_vector [OF m r])
  also have "(\<Sum>n \<leftarrow> neighbours m r. replicate (m * m) (1::real) ! n)
             = (\<Sum>n \<leftarrow> neighbours m r. 1)"
    by (rule arg_cong [where f = sum_list], rule map_cong [OF refl])
       (simp add: neighbours_in_range [OF r])
  also have "\<dots> = 4" by (simp add: neighbours_def Let_def)
  finally show ?thesis using r by simp
qed

lemma constant_grid:
  assumes m: "2 \<le> m"
  shows "dot (code_matrix m x) (replicate (m * m) k) = Inr (replicate (m * m) 0)"
proof -
  have "map (\<lambda>r. ((\<Sum>n \<leftarrow> neighbours m r. replicate (m * m) k ! n)
                    - 4 * replicate (m * m) k ! r) / x) [0..<m * m]
        = map (\<lambda>r. 0) [0..<m * m]"
  proof (rule map_cong [OF refl])
    fix r assume "r \<in> set [0..<m * m]"
    then have r: "r < m * m" by simp
    have "(\<Sum>n \<leftarrow> neighbours m r. replicate (m * m) k ! n) = (\<Sum>n \<leftarrow> neighbours m r. k)"
      by (rule arg_cong [where f = sum_list], rule map_cong [OF refl])
         (simp add: neighbours_in_range [OF r])
    also have "\<dots> = 4 * k" by (simp add: neighbours_def Let_def)
    finally show "((\<Sum>n \<leftarrow> neighbours m r. replicate (m * m) k ! n)
                    - 4 * replicate (m * m) k ! r) / x = 0"
      using r by simp
  qed
  also have "\<dots> = replicate (m * m) 0" by (simp add: map_replicate_const)
  finally show ?thesis using dot_code_matrix [OF m, of "replicate (m * m) k" x] by simp
qed

lemma neighbours_card:
  assumes m: "2 \<le> m" and r: "r < m * m"
  shows "card (set (neighbours m r)) = (if m = 2 then 2 else 4)"
proof (cases "m = 2")
  case True
  then have "r < 4" using r by simp
  then have "r = 0 \<or> r = 1 \<or> r = 2 \<or> r = 3" by auto
  then show ?thesis using True
    by (auto simp: neighbours_def Let_def)
next
  case False
  then have "3 \<le> m" using m by simp
  from neighbours_distinct [OF this r] have "card (set (neighbours m r)) = length (neighbours m r)"
    by (rule distinct_card)
  then show ?thesis using False by (simp add: neighbours_def Let_def)
qed

text \<open>
  The operator of the notebook's own call \<open>five_pt_laplacian_sparse_periodic(4,-1.,1.)\<close>,
  applied to the grid that is \<open>1\<close> at cell \<open>(0,0)\<close> and \<open>0\<close> elsewhere.
\<close>

lemma impulse_response:
  "five_pt_laplacian_sparse_periodic 4 (- 1) 1 = Inr (code_matrix 4 (4 / 25))"
  "dot (code_matrix 4 (4 / 25)) impulse_4x4
   = Inr [- 25, 25 / 4, 0, 25 / 4, 25 / 4, 0, 0, 0, 0, 0, 0, 0, 25 / 4, 0, 0, 0]"
proof -
  have "five_pt_laplacian_sparse_periodic 4 (- 1) 1
        = Inr (code_matrix 4 (((1 - (- 1)) / (real 4 + 1)) ^ 2))"
    by (rule builder_code_form) simp_all
  then show "five_pt_laplacian_sparse_periodic 4 (- 1) 1 = Inr (code_matrix 4 (4 / 25))"
    by (simp add: power2_eq_square)
  have up: "[0..<16] = [0, 1, 2, 3, 4, 5, 6, 7, 8, 9, 10, 11, 12, 13, 14, 15 :: nat]"
    by code_simp
  show "dot (code_matrix 4 (4 / 25)) impulse_4x4
   = Inr [- 25, 25 / 4, 0, 25 / 4, 25 / 4, 0, 0, 0, 0, 0, 0, 0, 25 / 4, 0, 0, 0]"
    unfolding impulse_4x4_def
    by (subst dot_code_matrix) (simp_all add: up neighbours_def)
qed

section \<open>Properties of the Laplacian builder\<close>

text \<open>
  Claim C1 states that the operator is the five-point stencil with periodic wrap, divided
  by \<open>h^2\<close> for the grid spacing \<open>h = (b-a)/m\<close>. The stencil is as claimed
  (\<open>laplacian_stencil\<close>), but the builder divides by the square of
  \<open>h = (b-a)/(m+1)\<close>, while the driver computes the spacing of the same grid as
  \<open>(b-a)/m\<close>. For \<open>m = 4\<close> on \<open>[-1, 1]\<close> and the unit impulse at cell
  \<open>(0,0)\<close>, the value at cell \<open>(0,0)\<close> is \<open>-4/(2/5)^2 = -25\<close>, where the
  spacing \<open>2/4\<close> of the claim gives \<open>-16\<close>.
\<close>

theorem laplacian_scaling_at_impulse:
  "\<exists>L V. five_pt_laplacian_sparse_periodic 4 (- 1) 1 = Inr L
         \<and> dot L impulse_4x4 = Inr V
         \<and> V ! (0 * 4 + 0) = - 25
         \<and> V ! (0 * 4 + 0)
           = (impulse_4x4 ! (3 * 4 + 0) + impulse_4x4 ! (1 * 4 + 0)
              + impulse_4x4 ! (0 * 4 + 3) + impulse_4x4 ! (0 * 4 + 1)
              - 4 * impulse_4x4 ! (0 * 4 + 0)) / ((1 - (- 1)) / (4 + 1)) ^ 2
         \<and> (impulse_4x4 ! (3 * 4 + 0) + impulse_4x4 ! (1 * 4 + 0)
              + impulse_4x4 ! (0 * 4 + 3) + impulse_4x4 ! (0 * 4 + 1)
              - 4 * impulse_4x4 ! (0 * 4 + 0)) / ((1 - (- 1)) / 4) ^ 2 = - 16"
proof -
  have "impulse_4x4 ! (3 * 4 + 0) + impulse_4x4 ! (1 * 4 + 0)
        + impulse_4x4 ! (0 * 4 + 3) + impulse_4x4 ! (0 * 4 + 1)
        - 4 * impulse_4x4 ! (0 * 4 + 0) = - 4"
    by (simp add: impulse_4x4_def)
  then show ?thesis using impulse_response by (simp add: power2_eq_square)
qed

text \<open>
  Claim C2, as stated: for every \<open>m \<ge> 2\<close> and \<open>a < b\<close> every row of the operator
  has exactly five nonzero entries. For \<open>m = 2\<close> the two vertical neighbours of a
  cell are the same cell, and so are the two horizontal ones: row \<open>0\<close> of the operator
  built for \<open>m = 2\<close> on \<open>[-1, 1]\<close> has its nonzero entries in the columns
  \<open>0, 1, 2\<close> only, three of them.
\<close>

theorem five_nonzeros_counterexample:
  "\<exists>L. five_pt_laplacian_sparse_periodic 2 (- 1) 1 = Inr L
       \<and> filter (\<lambda>c. entry L 0 c \<noteq> 0) [0..<2 ^ 2] = [0, 1, 2]
       \<and> length (filter (\<lambda>c. entry L 0 c \<noteq> 0) [0..<2 ^ 2]) = 3"
proof -
  define x :: real where "x = ((1 - (- 1)) / (real 2 + 1)) ^ 2"
  have x: "x \<noteq> 0" by (simp add: x_def)
  have L: "five_pt_laplacian_sparse_periodic 2 (- 1) 1 = Inr (code_matrix 2 x)"
    unfolding x_def by (rule builder_code_form) simp_all
  have nz: "(entry (code_matrix 2 x) 0 c \<noteq> 0) = (c = 0 \<or> c = 1 \<or> c = 2)" if "c < 4" for c
  proof -
    have "(entry (code_matrix 2 x) 0 c \<noteq> 0) = (c = 0 \<or> c \<in> set (neighbours 2 0))"
      by (rule entry_nonzero_iff) (use x that in simp_all)
    then show ?thesis by (auto simp: neighbours_def)
  qed
  have up: "[0..<2 ^ 2] = [0, 1, 2, 3 :: nat]" by code_simp
  have "filter (\<lambda>c. entry (code_matrix 2 x) 0 c \<noteq> 0) [0..<2 ^ 2] = [0, 1, 2]"
    unfolding up by (simp add: nz)
  then show ?thesis using L by simp
qed

text \<open>
  Claim C2, amended: for every \<open>m \<ge> 2\<close> and \<open>a < b\<close> the builder returns an
  operator; each of its rows has exactly five nonzero entries when \<open>m \<ge> 3\<close> and
  exactly three when \<open>m = 2\<close>; the entries of each row sum to zero; and the operator
  applied to a constant grid is the zero vector.
\<close>

theorem laplacian_rows:
  assumes "2 \<le> m" and "a < b"
  shows "\<exists>L. five_pt_laplacian_sparse_periodic m a b = Inr L
           \<and> (\<forall>r < m ^ 2.
                 length (filter (\<lambda>c. entry L r c \<noteq> 0) [0..<m ^ 2]) = (if m = 2 then 3 else 5)
                 \<and> (\<Sum>c \<leftarrow> [0..<m ^ 2]. entry L r c) = 0)
           \<and> (\<forall>k. dot L (replicate (m ^ 2) k) = Inr (replicate (m ^ 2) 0))"
proof -
  define x where "x = ((b - a) / (real m + 1)) ^ 2"
  have x: "x \<noteq> 0" using assms(2) by (simp add: x_def)
  have L: "five_pt_laplacian_sparse_periodic m a b = Inr (code_matrix m x)"
    unfolding x_def using assms by (intro builder_code_form) simp_all
  have sq: "m ^ 2 = m * m" by (simp add: power2_eq_square)
  have "length (filter (\<lambda>c. entry (code_matrix m x) r c \<noteq> 0) [0..<m * m]) = (if m = 2 then 3 else 5)"
    if "r < m * m" for r
    using nonzero_columns [OF assms(1) x that] neighbours_card [OF assms(1) that] by simp
  moreover have "(\<Sum>c \<leftarrow> [0..<m * m]. entry (code_matrix m x) r c) = 0" if "r < m * m" for r
    using that by (rule row_sum_zero [OF assms(1)])
  moreover have "dot (code_matrix m x) (replicate (m * m) k) = Inr (replicate (m * m) 0)" for k
    by (rule constant_grid [OF assms(1)])
  ultimately show ?thesis unfolding sq using L by blast
qed

theorem laplacian_rows_witness:
  "(2::nat) \<le> 3 \<and> (- 1 :: real) < 1
   \<and> (\<exists>L. five_pt_laplacian_sparse_periodic 3 (- 1) 1 = Inr L
         \<and> length (filter (\<lambda>c. entry L 0 c \<noteq> 0) [0..<3 ^ 2]) = 5
         \<and> (\<Sum>c \<leftarrow> [0..<3 ^ 2]. entry L 0 c) = 0
         \<and> dot L (replicate (3 ^ 2) 7) = Inr (replicate (3 ^ 2) 0))"
proof -
  have h: "(2::nat) \<le> 3" "(- 1 :: real) < 1" by simp_all
  from laplacian_rows [OF h] obtain L where
    L: "five_pt_laplacian_sparse_periodic 3 (- 1) 1 = Inr L"
    and rows: "\<forall>r < 3 ^ 2.
                 length (filter (\<lambda>c. entry L r c \<noteq> 0) [0..<3 ^ 2]) = (if (3::nat) = 2 then 3 else 5)
                 \<and> (\<Sum>c \<leftarrow> [0..<3 ^ 2]. entry L r c) = 0"
    and const: "\<forall>k. dot L (replicate (3 ^ 2) k) = Inr (replicate (3 ^ 2) 0)"
    by blast
  have "(0::nat) < 3 ^ 2" by simp
  with rows have "length (filter (\<lambda>c. entry L 0 c \<noteq> 0) [0..<3 ^ 2]) = 5"
    "(\<Sum>c \<leftarrow> [0..<3 ^ 2]. entry L 0 c) = 0" by auto
  with L const h show ?thesis by blast
qed

text \<open>
  Claim C7: for every \<open>m \<ge> 2\<close> and \<open>a < b\<close> the operator the builder returns
  equals its own transpose.
\<close>

theorem laplacian_symmetric:
  assumes "2 \<le> m" and "a < b"
  shows "\<exists>L. five_pt_laplacian_sparse_periodic m a b = Inr L \<and> transpose_sp L = L"
proof -
  have "five_pt_laplacian_sparse_periodic m a b
        = Inr (code_matrix m (((b - a) / (real m + 1)) ^ 2))"
    using assms by (intro builder_code_form) simp_all
  moreover have "0 < m" using assms(1) by simp
  ultimately show ?thesis by (simp add: code_matrix_symmetric)
qed

theorem laplacian_symmetric_witness:
  "(2::nat) \<le> 4 \<and> (- 1 :: real) < 1
   \<and> (\<exists>L. five_pt_laplacian_sparse_periodic 4 (- 1) 1 = Inr L \<and> transpose_sp L = L)"
proof -
  have h: "(2::nat) \<le> 4" "(- 1 :: real) < 1" by simp_all
  from laplacian_symmetric [OF h] h show ?thesis by blast
qed

text \<open>
  Claim C8, as stated: for \<open>m = 4\<close> on \<open>[-1, 1]\<close> the operator applied to the
  unit impulse at cell \<open>(0,0)\<close> is nonzero exactly at the four periodic neighbours
  \<open>(0,1), (0,3), (1,0), (3,0)\<close>. It is nonzero at cell \<open>(0,0)\<close> as well.
\<close>

theorem impulse_centre_counterexample:
  "\<not> (\<exists>L V. five_pt_laplacian_sparse_periodic 4 (- 1) 1 = Inr L
           \<and> dot L impulse_4x4 = Inr V
           \<and> filter (\<lambda>n. V ! n \<noteq> 0) [0..<4 * 4] = [0 * 4 + 1, 0 * 4 + 3, 1 * 4 + 0, 3 * 4 + 0])"
proof -
  have up: "[0..<16] = [0, 1, 2, 3, 4, 5, 6, 7, 8, 9, 10, 11, 12, 13, 14, 15 :: nat]"
    by code_simp
  show ?thesis using impulse_response by (simp add: up)
qed

text \<open>
  Claim C8, amended: for \<open>m = 4\<close> on \<open>[-1, 1]\<close> the operator applied to the unit
  impulse at cell \<open>(0,0)\<close> is nonzero exactly at cell \<open>(0,0)\<close> itself and at its
  four periodic neighbours \<open>(0,1), (0,3), (1,0), (3,0)\<close>, that is at the flattened
  indices \<open>0, 1, 3, 4, 12\<close>.
\<close>

theorem impulse_neighbours:
  "\<exists>L V. five_pt_laplacian_sparse_periodic 4 (- 1) 1 = Inr L
         \<and> dot L impulse_4x4 = Inr V
         \<and> V = [- 25, 25 / 4, 0, 25 / 4, 25 / 4, 0, 0, 0, 0, 0, 0, 0, 25 / 4, 0, 0, 0]
         \<and> filter (\<lambda>n. V ! n \<noteq> 0) [0..<4 * 4]
           = [0 * 4 + 0, 0 * 4 + 1, 0 * 4 + 3, 1 * 4 + 0, 3 * 4 + 0]"
proof -
  have up: "[0..<16] = [0, 1, 2, 3, 4, 5, 6, 7, 8, 9, 10, 11, 12, 13, 14, 15 :: nat]"
    by code_simp
  show ?thesis using impulse_response by (simp add: up)
qed

section \<open>Properties of the reaction terms\<close>

lemma reaction_origin:
  "f p 0 0 = 0" "beta p \<noteq> 0 \<Longrightarrow> g p 0 0 = Inr 0" "beta p = 0 \<Longrightarrow> g p u v = Inl ZeroDivisionError"
  by (simp_all add: f_def g_def)

text \<open>
  Claim C5 states that \<open>f(0,0) = 0\<close> and \<open>g(0,0) = 0\<close> for all values of the
  constants. \<open>f\<close> does vanish at the origin, and so does \<open>g\<close> when
  \<open>beta \<noteq> 0\<close> (\<open>reaction_origin\<close>), as the additive formula in the notebook's
  text does for every \<open>beta\<close>. But the code of \<open>g\<close> divides by \<open>beta\<close>: with
  \<open>beta = 0\<close> it raises ZeroDivisionError at the origin instead of returning \<open>0\<close>.
\<close>

theorem reaction_g_beta_zero:
  "g \<lparr>alpha = 0.899, beta = 0, gamma = - 0.899, tau1 = 3.5, tau2 = 0\<rparr> 0 0 = Inl ZeroDivisionError
   \<and> g_additive \<lparr>alpha = 0.899, beta = 0, gamma = - 0.899, tau1 = 3.5, tau2 = 0\<rparr> 0 0 = 0"
  by (simp add: g_def g_additive_def)

text \<open>
  Claim C6: whenever \<open>beta \<noteq> 0\<close>, the implemented \<open>g\<close> returns the value of the
  additive form \<open>beta v + alpha tau1 u v^2 + u (gamma + tau2 v)\<close>, for all \<open>u\<close> and
  \<open>v\<close>.
\<close>

theorem g_factored_is_additive:
  assumes "beta p \<noteq> 0"
  shows "g p u v = Inr (g_additive p u v)"
proof -
  have "beta p * v * (1 + alpha p * tau1 p / beta p * u * v)
        = beta p * v + alpha p * tau1 p * u * v ^ 2"
    using assms by (simp add: field_simps power2_eq_square)
  then show ?thesis using assms by (simp add: g_def g_additive_def)
qed

theorem g_factored_is_additive_witness:
  "beta \<lparr>alpha = 0.899, beta = - 0.91, gamma = - 0.899, tau1 = 3.5, tau2 = 0\<rparr> \<noteq> 0
   \<and> g \<lparr>alpha = 0.899, beta = - 0.91, gamma = - 0.899, tau1 = 3.5, tau2 = 0\<rparr> 2 3
     = Inr (g_additive \<lparr>alpha = 0.899, beta = - 0.91, gamma = - 0.899, tau1 = 3.5, tau2 = 0\<rparr> 2 3)"
proof -
  have h: "beta \<lparr>alpha = 0.899, beta = - 0.91, gamma = - 0.899, tau1 = 3.5, tau2 = 0\<rparr> \<noteq> 0"
    by simp
  from g_factored_is_additive [OF h] h show ?thesis by blast
qed

section \<open>Properties of the driver\<close>

subsection \<open>Rounding to doubles\<close>

lemma round_even_nearest:
  assumes "real_of_int n - 1 / 2 < y" and "y < real_of_int n + 1 / 2"
  shows "round_even y = n"
proof -
  have "\<lfloor>y\<rfloor> = n \<or> \<lfloor>y\<rfloor> = n - 1" using assms by linarith
  then show ?thesis
  proof
    assume f: "\<lfloor>y\<rfloor> = n"
    then have "y - real_of_int n < 1 / 2" using assms by simp
    then show ?thesis by (simp add: round_even_def f)
  next
    assume f: "\<lfloor>y\<rfloor> = n - 1"
    then have "1 / 2 < y - real_of_int (n - 1)" using assms by simp
    then show ?thesis by (simp add: round_even_def f)
  qed
qed

lemma round_even_bounds: "real_of_int (round_even y) \<le> y + 1" "y - 1 \<le> real_of_int (round_even y)"
  unfolding round_even_def Let_def by (auto; linarith)+

lemma ulp_pos: "0 < 2 powr (real_of_int \<lfloor>log 2 \<bar>x\<bar>\<rfloor> - 52)"
  by simp

lemma scaled_ge:
  assumes "x \<noteq> 0"
  shows "2 ^ 52 \<le> \<bar>x\<bar> / 2 powr (real_of_int \<lfloor>log 2 \<bar>x\<bar>\<rfloor> - 52)"
proof -
  have ax: "0 < \<bar>x\<bar>" using assms by simp
  have "2 powr real_of_int \<lfloor>log 2 \<bar>x\<bar>\<rfloor> \<le> 2 powr log 2 \<bar>x\<bar>"
    by (intro powr_mono) simp_all
  also have "\<dots> = \<bar>x\<bar>" using ax by simp
  finally have le: "2 powr real_of_int \<lfloor>log 2 \<bar>x\<bar>\<rfloor> \<le> \<bar>x\<bar>" .
  have "2 powr (real_of_int \<lfloor>log 2 \<bar>x\<bar>\<rfloor> - 52) * 2 ^ 52 = 2 powr real_of_int \<lfloor>log 2 \<bar>x\<bar>\<rfloor>"
    by (simp add: powr_diff)
  with le show ?thesis by (simp add: pos_le_divide_eq mult.commute)
qed

lemma fl64_pos:
  assumes "0 < x"
  shows "0 < fl64 x"
proof -
  let ?u = "2 powr (real_of_int \<lfloor>log 2 \<bar>x\<bar>\<rfloor> - 52)"
  have "2 ^ 52 \<le> x / ?u" using scaled_ge [of x] assms by simp
  then have "1 < x / ?u - 1" by simp
  also have "\<dots> \<le> real_of_int (round_even (x / ?u))" by (rule round_even_bounds)
  finally have "0 < real_of_int (round_even (x / ?u))" by simp
  then show ?thesis using assms by (simp add: fl64_def Let_def)
qed

lemma fl64_neg:
  assumes "x < 0"
  shows "fl64 x < 0"
proof -
  let ?u = "2 powr (real_of_int \<lfloor>log 2 \<bar>x\<bar>\<rfloor> - 52)"
  have "2 ^ 52 \<le> \<bar>x\<bar> / ?u" using scaled_ge [of x] assms by simp
  then have "x / ?u \<le> - (2 ^ 52)" using assms by simp
  then have "x / ?u + 1 < 0" by simp
  moreover have "real_of_int (round_even (x / ?u)) \<le> x / ?u + 1" by (rule round_even_bounds)
  ultimately have "real_of_int (round_even (x / ?u)) < 0" by linarith
  then show ?thesis using assms by (simp add: fl64_def Let_def mult_neg_pos)
qed

lemma fl64_0: "fl64 0 = 0"
  by (simp add: fl64_def)

lemma fl64_eq_0_iff: "(fl64 x = 0) = (x = 0)"
  using fl64_pos [of x] fl64_neg [of x] fl64_0 by (cases "x = 0"; cases "0 < x") auto

lemma fl64_nonpos: "x \<le> 0 \<Longrightarrow> fl64 x \<le> 0"
  using fl64_neg [of x] fl64_0 by (cases "x = 0") auto

lemma fl64_eval:
  assumes lo: "2 ^ 52 \<le> \<bar>x\<bar> * 2 ^ s" and hi: "\<bar>x\<bar> * 2 ^ s < 2 ^ 53"
    and n: "real_of_int n - 1 / 2 < x * 2 ^ s" "x * 2 ^ s < real_of_int n + 1 / 2"
  shows "fl64 x = real_of_int n / 2 ^ s"
proof -
  have x0: "x \<noteq> 0" using lo by auto
  then have ax: "0 < \<bar>x\<bar>" by simp
  have e: "\<lfloor>log 2 \<bar>x\<bar>\<rfloor> = 52 - int s"
  proof (rule floor_unique)
    have "2 powr (52 - real s) = 2 ^ 52 / 2 ^ s" by (simp add: powr_diff powr_realpow)
    also have "\<dots> \<le> \<bar>x\<bar>" using lo by (simp add: pos_divide_le_eq)
    finally have "52 - real s \<le> log 2 \<bar>x\<bar>" using ax by (simp add: le_log_iff)
    then show "real_of_int (52 - int s) \<le> log 2 \<bar>x\<bar>" by simp
    have "\<bar>x\<bar> < 2 ^ 53 / 2 ^ s" using hi by (simp add: pos_less_divide_eq)
    also have "\<dots> = 2 powr (53 - real s)" by (simp add: powr_diff powr_realpow)
    finally have "log 2 \<bar>x\<bar> < 53 - real s" using ax by (simp add: log_less_iff)
    then show "log 2 \<bar>x\<bar> < real_of_int (52 - int s) + 1" by simp
  qed
  have u: "2 powr (real_of_int \<lfloor>log 2 \<bar>x\<bar>\<rfloor> - 52) = 1 / 2 ^ s"
    unfolding e by (simp add: powr_minus powr_realpow inverse_eq_divide)
  have "round_even (x * 2 ^ s) = n" using n by (rule round_even_nearest)
  then show ?thesis using x0 by (simp add: fl64_def Let_def u)
qed

subsection \<open>The run up to the loop\<close>

lemma time_loop_unimplemented:
  assumes "g_one_step nb = one_step"
  shows "time_loop nb m A n s
         = (if n = 0 then Finished s else Raised (NameError ''u_new'') (j_done s) (sink s))"
  using assms by (cases n) (simp_all add: one_step_def)

lemma pattern_formation_unfold:
  assumes m: "2 \<le> m" and k: "g_step_size nb (fl64 (2 / real m)) (g_delta nb) = Inr k"
    and k0: "k \<noteq> 0"
  shows "pattern_formation nb u0 v0 m T
         = time_loop nb m (code_matrix m ((2 / (real m + 1)) ^ 2)) (nat (py_round (fl64 (T / k))))
             \<lparr>heap = [u0, v0], u_ref = 0, v_ref = 1, t_now = 0, k_step = k,
              N_steps = py_round (fl64 (T / k)), next_plot = 0, j_done = 0, sink = []\<rparr>"
proof -
  have "five_pt_laplacian_sparse_periodic m (- 1) 1
        = Inr (code_matrix m (((1 - (- 1)) / (real m + 1)) ^ 2))"
    using m by (intro builder_code_form) simp_all
  then have A: "five_pt_laplacian_sparse_periodic m (- 1) 1
        = Inr (code_matrix m ((2 / (real m + 1)) ^ 2))" by simp
  show ?thesis using m k k0 by (simp add: pattern_formation_def Let_def A)
qed

lemma unimplemented_run:
  assumes m: "2 \<le> m" and k: "g_step_size nb (fl64 (2 / real m)) (g_delta nb) = Inr k"
    and k0: "k \<noteq> 0" and st: "g_one_step nb = one_step"
  shows "pattern_formation nb u0 v0 m T
         = (if 1 \<le> py_round (fl64 (T / k)) then Raised (NameError ''u_new'') 0 []
            else Finished \<lparr>heap = [u0, v0], u_ref = 0, v_ref = 1, t_now = 0, k_step = k,
                   N_steps = py_round (fl64 (T / k)), next_plot = 0, j_done = 0, sink = []\<rparr>)"
  unfolding pattern_formation_unfold [OF m k k0] time_loop_unimplemented [OF st] by auto

lemma step_size_values:
  assumes "delta \<noteq> 0"
  shows "step_size_explicit h delta = Inr (fl64 (fl64 (h ^ 2) / fl64 (5 * delta)))"
    and "step_size_imex h delta = Inr (fl64 (h / fl64 (10 * delta)))"
  using assms by (simp_all add: step_size_explicit_def step_size_imex_def fl64_eq_0_iff)

lemma step_size_positive:
  assumes "0 < h" and "0 < delta"
  shows "0 < fl64 (fl64 (h ^ 2) / fl64 (5 * delta))" and "0 < fl64 (h / fl64 (10 * delta))"
proof -
  have "0 < fl64 (h ^ 2)" using assms(1) by (intro fl64_pos) simp
  moreover have "0 < fl64 (5 * delta)" using assms(2) by (intro fl64_pos) simp
  ultimately show "0 < fl64 (fl64 (h ^ 2) / fl64 (5 * delta))" by (intro fl64_pos) simp
  have "0 < fl64 (10 * delta)" using assms(2) by (intro fl64_pos) simp
  then show "0 < fl64 (h / fl64 (10 * delta))" using assms(1) by (intro fl64_pos) simp
qed

lemma py_round_nonpos: "x \<le> 0 \<Longrightarrow> py_round x \<le> 0"
  unfolding py_round_def by (auto simp: ceiling_le_iff)

lemma builder_swapped_bounds:
  assumes "2 \<le> m" and "a \<noteq> b"
  shows "\<exists>L. five_pt_laplacian_sparse_periodic m a b = Inr L
             \<and> five_pt_laplacian_sparse_periodic m b a = Inr L"
proof -
  have "((b - a) / (real m + 1)) ^ 2 = ((a - b) / (real m + 1)) ^ 2"
    by (simp add: power_divide power2_commute)
  then show ?thesis
    using builder_code_form [OF assms] builder_code_form [OF assms(1) assms(2) [symmetric]]
    by simp
qed

lemma driver_no_steps:
  assumes m: "2 \<le> m" and T: "T \<le> 0" and d: "0 < g_delta nb"
    and pol: "g_step_size nb = step_size_explicit \<or> g_step_size nb = step_size_imex"
  shows "\<exists>s. pattern_formation nb u0 v0 m T = Finished s \<and> j_done s = 0 \<and> sink s = []
             \<and> heap s = [u0, v0]"
proof -
  have h: "0 < fl64 (2 / real m)" using m by (intro fl64_pos) simp
  have d0: "g_delta nb \<noteq> 0" using d by simp
  obtain k where k: "g_step_size nb (fl64 (2 / real m)) (g_delta nb) = Inr k" and kpos: "0 < k"
  proof (cases "g_step_size nb = step_size_explicit")
    case True
    show ?thesis
    proof (rule that)
      show "g_step_size nb (fl64 (2 / real m)) (g_delta nb)
            = Inr (fl64 (fl64 (fl64 (2 / real m) ^ 2) / fl64 (5 * g_delta nb)))"
        unfolding True by (rule step_size_values [OF d0])
      show "0 < fl64 (fl64 (fl64 (2 / real m) ^ 2) / fl64 (5 * g_delta nb))"
        by (rule step_size_positive [OF h d])
    qed
  next
    case False
    then have e: "g_step_size nb = step_size_imex" using pol by simp
    show ?thesis
    proof (rule that)
      show "g_step_size nb (fl64 (2 / real m)) (g_delta nb)
            = Inr (fl64 (fl64 (2 / real m) / fl64 (10 * g_delta nb)))"
        unfolding e by (rule step_size_values [OF d0])
      show "0 < fl64 (fl64 (2 / real m) / fl64 (10 * g_delta nb))"
        by (rule step_size_positive [OF h d])
    qed
  qed
  have "T / k \<le> 0" using T kpos by (simp add: divide_nonpos_pos)
  then have "fl64 (T / k) \<le> 0" by (rule fl64_nonpos)
  then have "nat (py_round (fl64 (T / k))) = 0" using py_round_nonpos by simp
  moreover have "k \<noteq> 0" using kpos by simp
  ultimately show ?thesis using pattern_formation_unfold [OF m k] by simp
qed

subsection \<open>The calls of the notebook in double precision\<close>



lemma scenario_call:
  "step_size_explicit (fl64 (2 / real 10)) (fl64 0.0021) = Inr (8578285004515233 / 2 ^ 51)"
  "py_round (fl64 (50 / (8578285004515233 / 2 ^ 51))) = 13"
proof -
  have d: "fl64 (0.0021) = 4842270319348757 / 2 ^ 61"
  proof -
    have "fl64 (0.0021) = real_of_int 4842270319348757 / 2 ^ 61"
      by (rule fl64_eval) (simp_all add: power2_eq_square)
    then show ?thesis by simp
  qed
  have h: "fl64 (2 / real 10) = 7205759403792794 / 2 ^ 55"
  proof -
    have "fl64 (2 / real 10) = real_of_int 7205759403792794 / 2 ^ 55"
      by (rule fl64_eval) (simp_all add: power2_eq_square)
    then show ?thesis by simp
  qed
  have hh: "fl64 ((7205759403792794 / 2 ^ 55) ^ 2) = 5764607523034236 / 2 ^ 57"
  proof -
    have "fl64 ((7205759403792794 / 2 ^ 55) ^ 2) = real_of_int 5764607523034236 / 2 ^ 57"
      by (rule fl64_eval) (simp_all add: power2_eq_square)
    then show ?thesis by simp
  qed
  have c: "fl64 (5 * (4842270319348757 / 2 ^ 61)) = 6052837899185946 / 2 ^ 59"
  proof -
    have "fl64 (5 * (4842270319348757 / 2 ^ 61)) = real_of_int 6052837899185946 / 2 ^ 59"
      by (rule fl64_eval) (simp_all add: power2_eq_square)
    then show ?thesis by simp
  qed
  have k: "fl64 (5764607523034236 / 2 ^ 57 / (6052837899185946 / 2 ^ 59)) = 8578285004515233 / 2 ^ 51"
  proof -
    have "fl64 (5764607523034236 / 2 ^ 57 / (6052837899185946 / 2 ^ 59)) = real_of_int 8578285004515233 / 2 ^ 51"
      by (rule fl64_eval) (simp_all add: power2_eq_square)
    then show ?thesis by simp
  qed
  have q: "fl64 (50 / (8578285004515233 / 2 ^ 51)) = 7388718138654718 / 2 ^ 49"
  proof -
    have "fl64 (50 / (8578285004515233 / 2 ^ 51)) = real_of_int 7388718138654718 / 2 ^ 49"
      by (rule fl64_eval) (simp_all add: power2_eq_square)
    then show ?thesis by simp
  qed
  show "step_size_explicit (fl64 (2 / real 10)) (fl64 0.0021) = Inr (8578285004515233 / 2 ^ 51)"
    unfolding h d step_size_explicit_def hh c k by simp
  show "py_round (fl64 (50 / (8578285004515233 / 2 ^ 51))) = 13"
    unfolding q by (simp add: py_round_def)
qed


text \<open>
  Claim C3: the body of \<open>one_step\<close> binds neither of the names it returns, so every
  call raises NameError; with this \<open>one_step\<close> no run of the driver completes a
  step or hands out a snapshot, and a run that reaches the loop with at least one step to
  take ends with that NameError.
\<close>

theorem one_step_unimplemented:
  assumes "g_one_step nb = one_step"
  shows "one_step H u v k A delta D1 D2 = Inl (NameError ''u_new'')
         \<and> steps_completed (pattern_formation nb u0 v0 m T) = 0
         \<and> handed_out (pattern_formation nb u0 v0 m T) = []
         \<and> (2 \<le> m \<and> g_step_size nb (fl64 ((1 - (- 1)) / real m)) (g_delta nb) = Inr k'
              \<and> k' \<noteq> 0 \<and> 1 \<le> py_round (fl64 (T / k'))
            \<longrightarrow> pattern_formation nb u0 v0 m T = Raised (NameError ''u_new'') 0 [])"
proof -
  have a: "one_step H u v k A delta D1 D2 = Inl (NameError ''u_new'')"
    by (simp add: one_step_def)
  have b: "steps_completed (pattern_formation nb u0 v0 m T) = 0
           \<and> handed_out (pattern_formation nb u0 v0 m T) = []"
    by (simp add: pattern_formation_def Let_def time_loop_unimplemented [OF assms]
          steps_completed_def handed_out_def split: sum.splits)
  have c: "pattern_formation nb u0 v0 m T = Raised (NameError ''u_new'') 0 []"
    if "2 \<le> m" "g_step_size nb (fl64 ((1 - (- 1)) / real m)) (g_delta nb) = Inr k'" "k' \<noteq> 0"
       "1 \<le> py_round (fl64 (T / k'))"
  proof -
    have "g_step_size nb (fl64 (2 / real m)) (g_delta nb) = Inr k'" using that(2) by simp
    from unimplemented_run [OF that(1) this that(3) assms] that(4) show ?thesis by simp
  qed
  from a b c show ?thesis by blast
qed

theorem one_step_unimplemented_witness:
  "g_one_step \<lparr>g_delta = fl64 0.0021, g_step_size = step_size_explicit, g_one_step = one_step\<rparr> = one_step
   \<and> pattern_formation \<lparr>g_delta = fl64 0.0021, g_step_size = step_size_explicit, g_one_step = one_step\<rparr>
        (replicate 100 0) (replicate 100 0) 10 50
     = Raised (NameError ''u_new'') 0 []"
proof -
  let ?nb = "\<lparr>g_delta = fl64 0.0021, g_step_size = step_size_explicit, g_one_step = one_step\<rparr>"
  let ?k = "8578285004515233 / 2 ^ 51 :: real"
  have h: "g_one_step ?nb = one_step" by simp
  have "g_step_size ?nb (fl64 ((1 - (- 1)) / real 10)) (g_delta ?nb)
        = step_size_explicit (fl64 (2 / real 10)) (fl64 0.0021)" by simp
  then have k: "g_step_size ?nb (fl64 ((1 - (- 1)) / real 10)) (g_delta ?nb) = Inr ?k"
    by (simp only: scenario_call(1))
  have N: "1 \<le> py_round (fl64 (50 / ?k))" unfolding scenario_call(2) by simp
  have p: "(2::nat) \<le> 10 \<and> g_step_size ?nb (fl64 ((1 - (- 1)) / real 10)) (g_delta ?nb) = Inr ?k
           \<and> ?k \<noteq> 0 \<and> 1 \<le> py_round (fl64 (50 / ?k))"
    using k N by simp
  from one_step_unimplemented [OF h, of _ _ _ _ _ _ _ _ _ _ 10 50 ?k] p h
  show ?thesis by blast
qed




text \<open>
  Claim C9, as stated: every invalid configuration (\<open>m < 2\<close>, \<open>a \<ge> b\<close>,
  \<open>T \<le> 0\<close>, a negative diffusion coefficient) fails at the start of the run. The
  builder returns an operator for \<open>m = 10\<close> on the bounds \<open>a = 1 > b = -1\<close>, and
  the driver run with \<open>T = -50\<close> finishes without an error and without a step.
\<close>

theorem invalid_configuration_counterexample:
  "(\<exists>L. five_pt_laplacian_sparse_periodic 10 1 (- 1) = Inr L)
   \<and> (\<exists>s. pattern_formation
              \<lparr>g_delta = fl64 0.0021, g_step_size = step_size_explicit, g_one_step = one_step\<rparr>
              (replicate 100 0) (replicate 100 0) 10 (- 50) = Finished s
          \<and> j_done s = 0 \<and> sink s = [])"
proof -
  let ?nb = "\<lparr>g_delta = fl64 0.0021, g_step_size = step_size_explicit, g_one_step = one_step\<rparr>"
  have "\<exists>L. five_pt_laplacian_sparse_periodic 10 1 (- 1) = Inr L"
    using builder_swapped_bounds [of 10 1 "- 1"] by auto
  moreover have "\<exists>s. pattern_formation ?nb (replicate 100 0) (replicate 100 0) 10 (- 50) = Finished s
          \<and> j_done s = 0 \<and> sink s = []"
    using driver_no_steps [of 10 "- 50" ?nb "replicate 100 0" "replicate 100 0"]
    by (auto simp: fl64_pos)
  ultimately show ?thesis by blast
qed

text \<open>
  Claim C9, amended: the code checks no configuration. The builder fails where its
  library calls do, for \<open>m < 2\<close> (ValueError, the diagonal offsets repeat) and, when
  \<open>m \<ge> 2\<close>, for \<open>a = b\<close> (ZeroDivisionError in the scaling by \<open>h^2\<close>); for
  \<open>m \<ge> 2\<close> and \<open>a > b\<close> it returns the operator of the swapped bounds. The driver, for
  \<open>m \<ge> 2\<close>, \<open>delta > 0\<close> and \<open>T \<le> 0\<close>, finishes without an error, takes no
  step, hands out no snapshot and leaves the initial data as they were.
\<close>

theorem no_validation:
  assumes "2 \<le> m"
  shows "(\<forall>m' < 2. five_pt_laplacian_sparse_periodic m' a b = Inl ValueError)
         \<and> five_pt_laplacian_sparse_periodic m b b = Inl ZeroDivisionError
         \<and> (b < a \<longrightarrow> (\<exists>L. five_pt_laplacian_sparse_periodic m a b = Inr L
                        \<and> five_pt_laplacian_sparse_periodic m b a = Inr L))
         \<and> (T \<le> 0 \<and> 0 < g_delta nb
              \<and> (g_step_size nb = step_size_explicit \<or> g_step_size nb = step_size_imex)
            \<longrightarrow> (\<exists>s. pattern_formation nb u0 v0 m T = Finished s \<and> j_done s = 0 \<and> sink s = []
                     \<and> heap s = [u0, v0]))"
proof (intro conjI allI impI)
  fix m' :: nat
  assume "m' < 2"
  then show "five_pt_laplacian_sparse_periodic m' a b = Inl ValueError" by (rule builder_fails)
next
  show "five_pt_laplacian_sparse_periodic m b b = Inl ZeroDivisionError"
    using assms by (rule builder_fails) simp
next
  assume "b < a"
  then have "a \<noteq> b" by simp
  with assms show "\<exists>L. five_pt_laplacian_sparse_periodic m a b = Inr L
                     \<and> five_pt_laplacian_sparse_periodic m b a = Inr L"
    by (rule builder_swapped_bounds)
next
  assume c: "T \<le> 0 \<and> 0 < g_delta nb
             \<and> (g_step_size nb = step_size_explicit \<or> g_step_size nb = step_size_imex)"
  then have "T \<le> 0" "0 < g_delta nb"
    "g_step_size nb = step_size_explicit \<or> g_step_size nb = step_size_imex" by simp_all
  with assms show "\<exists>s. pattern_formation nb u0 v0 m T = Finished s \<and> j_done s = 0 \<and> sink s = []
                     \<and> heap s = [u0, v0]"
    by (rule driver_no_steps)
qed

theorem no_validation_witness:
  "(2::nat) \<le> 10
   \<and> five_pt_laplacian_sparse_periodic 1 1 (- 1) = Inl ValueError
   \<and> five_pt_laplacian_sparse_periodic 10 (- 1) (- 1) = Inl ZeroDivisionError
   \<and> (\<exists>L. five_pt_laplacian_sparse_periodic 10 1 (- 1) = Inr L
          \<and> five_pt_laplacian_sparse_periodic 10 (- 1) 1 = Inr L)
   \<and> (\<exists>s. pattern_formation
              \<lparr>g_delta = fl64 0.0021, g_step_size = step_size_explicit, g_one_step = one_step\<rparr>
              (replicate 100 0) (replicate 100 0) 10 (- 50) = Finished s
          \<and> j_done s = 0 \<and> sink s = [])"
proof -
  let ?nb = "\<lparr>g_delta = fl64 0.0021, g_step_size = step_size_explicit, g_one_step = one_step\<rparr>"
  have h: "(2::nat) \<le> 10" by simp
  note th = no_validation [OF h, of 1 "- 1" "- 50" ?nb "replicate 100 0" "replicate 100 0"]
  from th have fails: "\<forall>m' < 2. five_pt_laplacian_sparse_periodic m' 1 (- 1) = Inl ValueError"
    by (rule conjunct1)
  from th have f2: "five_pt_laplacian_sparse_periodic 10 (- 1) (- 1) = Inl ZeroDivisionError"
    by (rule conjunct1 [OF conjunct2])
  from th have swapped: "(- 1 :: real) < 1
      \<longrightarrow> (\<exists>L. five_pt_laplacian_sparse_periodic 10 1 (- 1) = Inr L
               \<and> five_pt_laplacian_sparse_periodic 10 (- 1) 1 = Inr L)"
    by (rule conjunct1 [OF conjunct2 [OF conjunct2]])
  from th have silent: "(- 50 :: real) \<le> 0 \<and> 0 < g_delta ?nb
      \<and> (g_step_size ?nb = step_size_explicit \<or> g_step_size ?nb = step_size_imex)
      \<longrightarrow> (\<exists>s. pattern_formation ?nb (replicate 100 0) (replicate 100 0) 10 (- 50) = Finished s
               \<and> j_done s = 0 \<and> sink s = [] \<and> heap s = [replicate 100 0, replicate 100 0])"
    by (rule conjunct2 [OF conjunct2 [OF conjunct2]])
  have f1: "five_pt_laplacian_sparse_periodic 1 1 (- 1) = Inl ValueError"
    using fails [rule_format, of 1] by simp
  have s1: "\<exists>L. five_pt_laplacian_sparse_periodic 10 1 (- 1) = Inr L
               \<and> five_pt_laplacian_sparse_periodic 10 (- 1) 1 = Inr L"
    using swapped by simp
  have "\<exists>s. pattern_formation ?nb (replicate 100 0) (replicate 100 0) 10 (- 50) = Finished s
               \<and> j_done s = 0 \<and> sink s = [] \<and> heap s = [replicate 100 0, replicate 100 0]"
    using silent by (simp add: fl64_pos)
  then have s2: "\<exists>s. pattern_formation ?nb (replicate 100 0) (replicate 100 0) 10 (- 50) = Finished s
               \<and> j_done s = 0 \<and> sink s = []"
    by blast
  from h f1 f2 s1 s2 show ?thesis by (intro conjI)
qed

end
